theory Spec2Isabelle
  imports Complex_Main
begin

section \<open>Python strings\<close>

text \<open>
  Strings are lists of characters, and a character of the model is a code point below 256.
  On these the tests and conversions of Python are modelled as they are: \<open>str.isdigit\<close>,
  \<open>str.isspace\<close>, \<open>str.lower\<close>, \<open>int\<close> and the class \<open>\d\<close> of regular expressions.
  Characters from 256 on are not values of the type.
\<close>

text \<open>\<open>s.startswith(p)\<close>\<close>

fun starts_with :: "string \<Rightarrow> string \<Rightarrow> bool" where
  "starts_with [] s = True"
| "starts_with (p # ps) [] = False"
| "starts_with (p # ps) (c # cs) = (p = c \<and> starts_with ps cs)"

text \<open>\<open>sub in s\<close>\<close>

fun contains :: "string \<Rightarrow> string \<Rightarrow> bool" where
  "contains sub [] = (sub = [])"
| "contains sub (c # cs) = (starts_with sub (c # cs) \<or> contains sub cs)"

text \<open>\<open>s.endswith(suffix)\<close>\<close>

definition ends_with :: "string \<Rightarrow> string \<Rightarrow> bool" where
  "ends_with suffix s = starts_with (rev suffix) (rev s)"

text \<open>
  The ten decimal digits: what \<open>\d\<close> matches and what \<open>int\<close> reads. The value of a digit.
\<close>

definition is_digit :: "char \<Rightarrow> bool" where
  "is_digit c = (c \<in> set ''0123456789'')"

definition digit_value :: "char \<Rightarrow> int" where
  "digit_value c =
     (case map_of (zip ''0123456789'' [0, 1, 2, 3, 4, 5, 6, 7, 8, 9]) c of
        None \<Rightarrow> 0
      | Some d \<Rightarrow> d)"

text \<open>The number written by a string of decimal digits, most significant digit first.\<close>

definition int_of_digits :: "string \<Rightarrow> int" where
  "int_of_digits ds = foldl (\<lambda>acc c. 10 * acc + digit_value c) 0 ds"

text \<open>
  \<open>s.lower()\<close>: the letters \<open>A\<close> to \<open>Z\<close> and the capital letters U+00C0 to U+00DE
  (U+00D7 is the multiplication sign) move 32 code points up.
\<close>

definition lower_char :: "char \<Rightarrow> char" where
  "lower_char c =
     (case map_of (zip ''ABCDEFGHIJKLMNOPQRSTUVWXYZ'' ''abcdefghijklmnopqrstuvwxyz'') c of
        Some l \<Rightarrow> l
      | None \<Rightarrow>
          (if (0xC0::nat) \<le> of_char c \<and> of_char c \<le> (0xDE::nat) \<and> of_char c \<noteq> (0xD7::nat)
           then char_of (of_char c + (0x20::nat)) else c))"

definition lower :: "string \<Rightarrow> string" where
  "lower s = map lower_char s"

text \<open>\<open>s.split(sep)\<close> for a one-character separator: empty pieces are kept.\<close>

fun split_acc :: "char \<Rightarrow> string \<Rightarrow> string \<Rightarrow> string list" where
  "split_acc sep cur [] = [cur]"
| "split_acc sep cur (c # cs) =
     (if c = sep then cur # split_acc sep [] cs else split_acc sep (cur @ [c]) cs)"

definition split_on :: "char \<Rightarrow> string \<Rightarrow> string list" where
  "split_on sep s = split_acc sep [] s"


section \<open>SpotifyDownloaderApp: the download history\<close>

text \<open>
  \<^verbatim>\<open>
  def add_to_history(self, entry):
      self.download_history.insert(0, entry)  # Add to beginning of list
      # Limit history to 100 entries
      if len(self.download_history) > 100:
          self.download_history = self.download_history[:100]
  \<close>
  The function is the effect on \<open>self.download_history\<close>.
\<close>

definition add_to_history :: "'e \<Rightarrow> 'e list \<Rightarrow> 'e list" where
  "add_to_history entry download_history =
     (let h = entry # download_history in if length h > 100 then take 100 h else h)"


section \<open>Exceptions and text helpers\<close>

text \<open>
  A raised Python exception. \<open>exn_text\<close> is \<open>str(e)\<close>. \<open>Error\<close> stands for any other
  subclass of \<open>Exception\<close> (an \<open>OSError\<close> of the operating system, a decoding error, ...).
\<close>

datatype exn =
    NameError string
  | ZeroDivisionError
  | OverflowError string
  | IndexError
  | ValueError string
  | Error string

fun exn_text :: "exn \<Rightarrow> string" where
  "exn_text (NameError n) = ''name '' @ [CHR 0x27] @ n @ [CHR 0x27] @ '' is not defined''"
| "exn_text ZeroDivisionError = ''division by zero''"
| "exn_text (OverflowError msg) = msg"
| "exn_text IndexError = ''list index out of range''"
| "exn_text (ValueError msg) = msg"
| "exn_text (Error msg) = msg"

text \<open>\<open>str.isspace\<close>, \<open>s.strip()\<close>, \<open>s.split()\<close> and \<open>sep.join(xs)\<close>\<close>

definition is_space :: "char \<Rightarrow> bool" where
  "is_space c =
     (c \<in> set [CHR 0x09, CHR 0x0A, CHR 0x0B, CHR 0x0C, CHR 0x0D,
                CHR 0x1C, CHR 0x1D, CHR 0x1E, CHR 0x1F, CHR 0x20, CHR 0x85, CHR 0xA0])"

definition strip :: "string \<Rightarrow> string" where
  "strip s = rev (dropWhile is_space (rev (dropWhile is_space s)))"

fun split_ws_acc :: "string \<Rightarrow> string \<Rightarrow> string list" where
  "split_ws_acc cur [] = (if cur = [] then [] else [cur])"
| "split_ws_acc cur (c # cs) =
     (if is_space c then (if cur = [] then split_ws_acc [] cs else cur # split_ws_acc [] cs)
      else split_ws_acc (cur @ [c]) cs)"

definition split_ws :: "string \<Rightarrow> string list" where
  "split_ws s = split_ws_acc [] s"

fun join_with :: "string \<Rightarrow> string list \<Rightarrow> string" where
  "join_with sep [] = []"
| "join_with sep [x] = x"
| "join_with sep (x # y # ys) = x @ sep @ join_with sep (y # ys)"

text \<open>The decimal text of an integer, as an f-string prints it.\<close>

definition digit_char :: "nat \<Rightarrow> char" where
  "digit_char n = ''0123456789'' ! n"

fun show_nat :: "nat \<Rightarrow> string" where
  "show_nat n = (if n < 10 then [digit_char n] else show_nat (n div 10) @ [digit_char (n mod 10)])"

declare show_nat.simps [simp del]

definition show_int :: "int \<Rightarrow> string" where
  "show_int i = (if i < 0 then CHR ''-'' # show_nat (nat (- i)) else show_nat (nat i))"


section \<open>UpdateWorker: version comparison\<close>

text \<open>
  \<open>ch.isdigit()\<close>: besides the ten decimal digits it holds of the superscript digits
  U+00B2, U+00B3 and U+00B9.
\<close>

definition isdigit :: "char \<Rightarrow> bool" where
  "isdigit c = (is_digit c \<or> c \<in> set [CHR 0xB2, CHR 0xB3, CHR 0xB9])"

text \<open>
  \<open>int(num)\<close> for a string without sign, blank or underscore. The interpreter reads the
  decimal digits at the front; more than 4300 of them are refused (the limit of CPython on
  the conversion of strings, \<open>sys.int_info.default_max_str_digits\<close>); then anything
  that is left, or an empty string, is an invalid literal. Both are a \<open>ValueError\<close>.
\<close>

definition py_int :: "string \<Rightarrow> exn + int" where
  "py_int num =
     (let front = takeWhile is_digit num in
      if 4300 < length front then
        Inl (ValueError
              (''Exceeds the limit (4300 digits) for integer string conversion: value has ''
               @ show_nat (length front)
               @ '' digits; use sys.set_int_max_str_digits() to increase the limit''))
      else if front \<noteq> num \<or> num = [] then
        Inl (ValueError
              (''invalid literal for int() with base 10: '' @ [CHR 0x27] @ num @ [CHR 0x27]))
      else Inr (int_of_digits num))"

text \<open>
  \<^verbatim>\<open>
  def version_tuple(v: str):
      # Safe parse version numbers like '1.2.3' (ignore non-numeric suffixes)
      parts = []
      for p in v.split('.'):
          num = ''.join(ch for ch in p if ch.isdigit())
          parts.append(int(num) if num else 0)
      return tuple(parts)
  \<close>
  \<open>version_part\<close> is one turn of the loop, \<open>version_parts\<close> the loop: the first component
  on which \<open>int\<close> raises ends it with that exception.
\<close>

definition version_part :: "string \<Rightarrow> exn + int" where
  "version_part p = (let num = filter isdigit p in if num \<noteq> [] then py_int num else Inr 0)"

fun version_parts :: "string list \<Rightarrow> exn + int list" where
  "version_parts [] = Inr []"
| "version_parts (p # ps) =
     (case version_part p of
        Inl e \<Rightarrow> Inl e
      | Inr n \<Rightarrow> (case version_parts ps of Inl e \<Rightarrow> Inl e | Inr ns \<Rightarrow> Inr (n # ns)))"

definition version_tuple :: "string \<Rightarrow> exn + int list" where
  "version_tuple v = version_parts (split_on CHR ''.'' v)"

text \<open>
  Python orders tuples lexicographically: the first differing position decides, and a
  proper prefix is smaller than the longer tuple.
\<close>

fun tuple_less :: "int list \<Rightarrow> int list \<Rightarrow> bool" where
  "tuple_less [] [] = False"
| "tuple_less [] (y # ys) = True"
| "tuple_less (x # xs) [] = False"
| "tuple_less (x # xs) (y # ys) = (x < y \<or> (x = y \<and> tuple_less xs ys))"

text \<open>
  \<^verbatim>\<open>if latest_tag and version_tuple(latest_tag) > version_tuple(current_version):\<close>
  An empty tag decides at once; otherwise the tuple of the tag is computed first, then
  that of the installed version.
\<close>

definition update_wanted :: "string \<Rightarrow> string \<Rightarrow> exn + bool" where
  "update_wanted latest_tag current_version =
     (if latest_tag = [] then Inr False
      else
        (case version_tuple latest_tag of
           Inl e \<Rightarrow> Inl e
         | Inr latest \<Rightarrow>
            (case version_tuple current_version of
               Inl e \<Rightarrow> Inl e
             | Inr current \<Rightarrow> Inr (tuple_less current latest))))"

text \<open>
  The reading of the version rule in the specification, for comparison: of each component
  the leading decimal number counts (what follows it is the suffix), a component without one
  is 0, and components that a version does not have are 0.
\<close>

definition spec_version_part :: "string \<Rightarrow> int" where
  "spec_version_part p =
     (let num = takeWhile is_digit p in if num \<noteq> [] then int_of_digits num else 0)"

definition spec_version_tuple :: "string \<Rightarrow> int list" where
  "spec_version_tuple v = map spec_version_part (split_on CHR ''.'' v)"

definition pad_zero :: "nat \<Rightarrow> int list \<Rightarrow> int list" where
  "pad_zero n xs = xs @ replicate (n - length xs) 0"

definition spec_newer :: "string \<Rightarrow> string \<Rightarrow> bool" where
  "spec_newer remote local =
     (let r = spec_version_tuple remote; l = spec_version_tuple local;
          n = max (length r) (length l)
      in tuple_less (pad_zero n l) (pad_zero n r))"


section \<open>DownloadWorker: reading the downloader's output\<close>

text \<open>
  \<open>re.search(r"Downloading (.+)", line)\<close>: the leftmost place where \<open>Downloading\<close> and a
  blank are followed by at least one character other than a newline; group 1 is the rest
  of the line up to the newline.
\<close>

fun search_downloading :: "string \<Rightarrow> string option" where
  "search_downloading [] = None"
| "search_downloading (c # cs) =
     (if starts_with ''Downloading '' (c # cs)
         \<and> takeWhile (\<lambda>x. x \<noteq> CHR 0x0A) (drop 12 (c # cs)) \<noteq> []
      then Some (takeWhile (\<lambda>x. x \<noteq> CHR 0x0A) (drop 12 (c # cs)))
      else search_downloading cs)"

text \<open>
  \<open>re.search(r"Found (\d+) tracks", line)\<close>, and \<open>int(match.group(1))\<close> of the match: the
  leftmost place where \<open>Found\<close>, a blank, a run of digits and \<open> tracks\<close> follow each other.
\<close>

fun search_found :: "string \<Rightarrow> int option" where
  "search_found [] = None"
| "search_found (c # cs) =
     (if starts_with ''Found '' (c # cs)
         \<and> takeWhile is_digit (drop 6 (c # cs)) \<noteq> []
         \<and> starts_with '' tracks'' (dropWhile is_digit (drop 6 (c # cs)))
      then Some (int_of_digits (takeWhile is_digit (drop 6 (c # cs))))
      else search_found cs)"

text \<open>The signals of the worker and the system calls of the job, in the order they happen.\<close>

datatype action =
    Console string
  | Progress int int
  | Complete bool string string string
  | Chdir string
  | App_base_dir
  | Which string
  | Popen "string list"

text \<open>
  The loop variables of \<open>DownloadWorker.run\<close>:
  \<^verbatim>\<open>
  total_tracks = 1
  current_track = 0
  downloaded_tracks = []
  \<close>
\<close>

record loop_state =
  total_tracks :: int
  current_track :: int
  downloaded_tracks :: "string list"

definition loop_init :: loop_state where
  "loop_init = \<lparr>total_tracks = 1, current_track = 0, downloaded_tracks = []\<rparr>"

text \<open>
  One turn of the loop body:
  \<^verbatim>\<open>
  if "Downloading" in line or "Found" in line or "Downloaded" in line or "Error" in line:
      self.update_console.emit(line.strip())
  if "Downloading" in line:
      current_track += 1
      self.update_progress.emit(current_track, total_tracks)
      track_match = re.search(r"Downloading (.+)", line)
      if track_match:
          downloaded_tracks.append(track_match.group(1).strip())
  elif "Found" in line:
      match = re.search(r"Found (\d+) tracks", line)
      if match:
          total_tracks = int(match.group(1))
  \<close>
  An emission is the signal with the Python integers given to it; their conversion on
  the way to the slot is \<open>progress_shown\<close> below.
\<close>

definition console_part :: "string \<Rightarrow> action list" where
  "console_part line =
     (if contains ''Downloading'' line \<or> contains ''Found'' line
         \<or> contains ''Downloaded'' line \<or> contains ''Error'' line
      then [Console (strip line)] else [])"

definition handle_line :: "string \<Rightarrow> loop_state \<Rightarrow> action list \<times> loop_state" where
  "handle_line line st =
     (if contains ''Downloading'' line then
        (let cur = current_track st + 1 in
         (console_part line @ [Progress cur (total_tracks st)],
          st\<lparr>current_track := cur,
             downloaded_tracks :=
               (case search_downloading line of
                  None \<Rightarrow> downloaded_tracks st
                | Some title \<Rightarrow> downloaded_tracks st @ [strip title])\<rparr>))
      else if contains ''Found'' line then
        (console_part line,
         (case search_found line of
            None \<Rightarrow> st
          | Some n \<Rightarrow> st\<lparr>total_tracks := n\<rparr>))
      else (console_part line, st))"

fun read_lines :: "string list \<Rightarrow> loop_state \<Rightarrow> action list \<times> loop_state" where
  "read_lines [] st = ([], st)"
| "read_lines (line # rest) st =
     (case handle_line line st of
        (acts, st') \<Rightarrow> (case read_lines rest st' of (acts', st'') \<Rightarrow> (acts @ acts', st'')))"


section \<open>DownloadWorker: the job\<close>

text \<open>The five constructor arguments of \<open>DownloadWorker\<close>.\<close>

record request =
  url :: string
  download_path :: string
  quality :: string
  format_type :: string
  use_auth :: bool

text \<open>
  A run of the downloader process as the job sees it: the lines that the iteration over
  \<open>process.stdout\<close> yields (each with its newline), the exception that ends the iteration
  if one does, and the value of \<open>process.wait()\<close>.
\<close>

record process =
  stdout_lines :: "string list"
  read_error :: "exn option"
  return_code :: int

text \<open>
  What the surroundings answer to the calls of the job. \<open>os.chdir\<close> raises when
  \<open>chdir_error\<close> gives an exception for the directory. \<open>app_base_dir\<close> is called by the
  source but defined nowhere in it, and \<open>shutil\<close> is used but never imported: as the file
  stands both calls raise \<open>NameError\<close>. Their results are fields here, an exception being
  one possible result, so that the rest of the job can be followed as well.
  \<open>now\<close> is the text of \<open>datetime.datetime.now().strftime(...)\<close>.
\<close>

record dl_env =
  chdir_error :: "string \<Rightarrow> exn option"
  app_base_dir :: "exn + string"
  which :: "string \<Rightarrow> exn + string option"
  path_join :: "string \<Rightarrow> string \<Rightarrow> string"
  isfile :: "string \<Rightarrow> bool"
  popen :: "string list \<Rightarrow> exn + process"
  now :: string

text \<open>
  The result of a run: what it did, the working directory of the process afterwards, and
  the exception that left \<open>run\<close>, if one did.
\<close>

record run_result =
  actions :: "action list"
  cwd :: string
  escaped :: "exn option"

text \<open>Python's truth value of a value that is \<open>None\<close> or a string.\<close>

definition truthy :: "string option \<Rightarrow> bool" where
  "truthy v = (v \<noteq> None \<and> v \<noteq> Some [])"

text \<open>\<open>shutil.which(a) or shutil.which(b)\<close>\<close>

definition which_or :: "dl_env \<Rightarrow> string \<Rightarrow> string \<Rightarrow> action list \<times> (exn + string option)" where
  "which_or env a b =
     (case which env a of
        Inl e \<Rightarrow> ([Which a], Inl e)
      | Inr r \<Rightarrow> (if truthy r then ([Which a], Inr r) else ([Which a, Which b], which env b)))"

text \<open>
  \<^verbatim>\<open>
  possible_ffmpeg_paths = [os.path.join(script_folder, 'ffmpeg.exe')]
  if ffmpeg_in_path:
      possible_ffmpeg_paths.append(ffmpeg_in_path)
  \<close>
\<close>

definition possible_paths :: "dl_env \<Rightarrow> string \<Rightarrow> string \<Rightarrow> string option \<Rightarrow> string list" where
  "possible_paths env script_folder exe in_path =
     path_join env script_folder exe # (if truthy in_path then [the in_path] else [])"

text \<open>
  \<^verbatim>\<open>
  ffmpeg_path = None
  for path in possible_ffmpeg_paths:
      if os.path.isfile(path):
          ffmpeg_path = path
          break
  \<close>
\<close>

fun first_file :: "dl_env \<Rightarrow> string list \<Rightarrow> string option" where
  "first_file env [] = None"
| "first_file env (p # ps) = (if isfile env p then Some p else first_file env ps)"

definition command_line :: "request \<Rightarrow> string \<Rightarrow> string \<Rightarrow> string list" where
  "command_line req spotdl_path ffmpeg_path =
     [spotdl_path, ''download'', url req, ''--bitrate'', quality req, ''--ffmpeg'', ffmpeg_path]
     @ (if format_type req \<noteq> ''mp3'' then [''--output-format'', format_type req] else [])
     @ (if use_auth req then [''--user-auth''] else [])"

text \<open>
  The \<open>try\<close> block after \<open>subprocess.Popen\<close> has returned, with its \<open>except Exception\<close>
  clause: the loop, \<open>process.wait()\<close> and the terminal signal.
\<close>

definition after_spawn :: "dl_env \<Rightarrow> request \<Rightarrow> process \<Rightarrow> action list" where
  "after_spawn env req proc =
     (case read_lines (stdout_lines proc) loop_init of
        (acts, st) \<Rightarrow>
          (case read_error proc of
             Some e \<Rightarrow> acts @ [Complete False (exn_text e) (url req) (now env)]
           | None \<Rightarrow>
               (if return_code proc = 0 then
                  acts @ [Complete True ''Download completed successfully!''
                            (if downloaded_tracks st \<noteq> []
                             then join_with '', '' (downloaded_tracks st) else url req)
                            (now env)]
                else
                  acts @ [Complete False
                            (''Download failed with return code '' @ show_int (return_code proc) @ ''.'')
                            (url req) (now env)])))"

definition try_block :: "dl_env \<Rightarrow> request \<Rightarrow> string list \<Rightarrow> action list" where
  "try_block env req command =
     Popen command #
     (case popen env command of
        Inl e \<Rightarrow> [Complete False (exn_text e) (url req) (now env)]
      | Inr proc \<Rightarrow> after_spawn env req proc)"

text \<open>
  \<open>os.chdir(original_dir)\<close>, as the last statement of a path: in the \<open>finally\<close> clause and
  before the two early returns.
\<close>

definition restore :: "dl_env \<Rightarrow> string \<Rightarrow> string \<Rightarrow> action list \<Rightarrow> run_result" where
  "restore env original_dir cur acts =
     (case chdir_error env original_dir of
        None \<Rightarrow> \<lparr>actions = acts @ [Chdir original_dir], cwd = original_dir, escaped = None\<rparr>
      | Some e \<Rightarrow> \<lparr>actions = acts @ [Chdir original_dir], cwd = cur, escaped = Some e\<rparr>)"

definition ffmpeg_missing :: string where
  "ffmpeg_missing =
     ''ffmpeg.exe not found. Make sure it'' @ [CHR 0x27]
     @ ''s in the same directory as the application.''"

definition spotdl_missing :: string where
  "spotdl_missing =
     ''spotdl.exe not found. Make sure it'' @ [CHR 0x27]
     @ ''s in the same directory as the application.''"

text \<open>
  Lines 41 to 139 of the source: from \<open>app_base_dir()\<close> to the end of \<open>run\<close>, the working
  directory being the download directory. Nothing before the \<open>try\<close> statement is inside a
  handler, so an exception raised there leaves \<open>run\<close>.
\<close>

definition resolve_and_download :: "dl_env \<Rightarrow> request \<Rightarrow> string \<Rightarrow> action list \<Rightarrow> run_result" where
  "resolve_and_download env req original_dir pre =
     (case app_base_dir env of
        Inl e \<Rightarrow> \<lparr>actions = pre @ [App_base_dir], cwd = download_path req, escaped = Some e\<rparr>
      | Inr script_folder \<Rightarrow>
         (case which_or env ''ffmpeg'' ''ffmpeg.exe'' of
            (w1, Inl e) \<Rightarrow>
              \<lparr>actions = pre @ [App_base_dir] @ w1, cwd = download_path req, escaped = Some e\<rparr>
          | (w1, Inr ffmpeg_in_path) \<Rightarrow>
             (case which_or env ''spotdl'' ''spotdl.exe'' of
                (w2, Inl e) \<Rightarrow>
                  \<lparr>actions = pre @ [App_base_dir] @ w1 @ w2, cwd = download_path req,
                   escaped = Some e\<rparr>
              | (w2, Inr spotdl_in_path) \<Rightarrow>
                 (let acts = pre @ [App_base_dir] @ w1 @ w2;
                      ffmpeg_path =
                        first_file env (possible_paths env script_folder ''ffmpeg.exe'' ffmpeg_in_path);
                      spotdl_path =
                        first_file env (possible_paths env script_folder ''spotdl.exe'' spotdl_in_path)
                  in if \<not> truthy ffmpeg_path then
                       restore env original_dir (download_path req)
                         (acts @ [Complete False ffmpeg_missing (url req) []])
                     else if \<not> truthy spotdl_path then
                       restore env original_dir (download_path req)
                         (acts @ [Complete False spotdl_missing (url req) []])
                     else
                       restore env original_dir (download_path req)
                         (acts @ try_block env req
                                   (command_line req (the spotdl_path) (the ffmpeg_path)))))))"

text \<open>
  \<open>DownloadWorker.run\<close>, started with working directory \<open>original_dir\<close>
  (the value of \<open>os.getcwd()\<close>).
\<close>

definition DownloadWorker_run :: "dl_env \<Rightarrow> request \<Rightarrow> string \<Rightarrow> run_result" where
  "DownloadWorker_run env req original_dir =
     (if url req = [] then
        \<lparr>actions = [Complete False ''No URL provided'' [] []], cwd = original_dir, escaped = None\<rparr>
      else
        (case chdir_error env (download_path req) of
           Some e \<Rightarrow> \<lparr>actions = [Chdir (download_path req)], cwd = original_dir, escaped = Some e\<rparr>
         | None \<Rightarrow> resolve_and_download env req original_dir [Chdir (download_path req)]))"


section \<open>Percentages in double precision\<close>

text \<open>
  Both workers compute \<open>int((a / b) * 100)\<close> on integers. In Python \<open>a / b\<close> is the double
  nearest to the exact quotient (ties to the even mantissa), the product with \<open>100\<close> is
  rounded the same way, and \<open>int\<close> cuts the fraction off. A finite double is a pair
  \<open>(m, e)\<close> standing for \<open>m * 2 ^ e\<close>, with a mantissa of at most 53 bits and
  \<open>e \<ge> -1074\<close>.
\<close>

function bit_length :: "int \<Rightarrow> nat" where
  "bit_length n = (if n \<le> 0 then 0 else Suc (bit_length (n div 2)))"
  by pat_completeness auto
termination
  by (relation "measure nat") auto

declare bit_length.simps [simp del]

text \<open>The integer nearest to \<open>a / b\<close> for \<open>b > 0\<close>, a tie going to the even one.\<close>

definition round_half_even :: "int \<Rightarrow> int \<Rightarrow> int" where
  "round_half_even a b =
     (let q = a div b; r = a mod b
      in if 2 * r < b then q else if b < 2 * r then q + 1 else if even q then q else q + 1)"

text \<open>The \<open>k\<close> with \<open>2 ^ k \<le> n / d < 2 ^ (k + 1)\<close>, for positive \<open>n\<close> and \<open>d\<close>.\<close>

definition floor_log2 :: "int \<Rightarrow> int \<Rightarrow> int" where
  "floor_log2 n d =
     (let k = int (bit_length n) - int (bit_length d)
      in if (if 0 \<le> k then d * 2 ^ nat k \<le> n else d \<le> n * 2 ^ nat (- k)) then k else k - 1)"

text \<open>The double nearest to \<open>n / d\<close>, for \<open>n \<ge> 0\<close> and \<open>d > 0\<close>.\<close>

definition round_double :: "int \<Rightarrow> int \<Rightarrow> int \<times> int" where
  "round_double n d =
     (let e = max (floor_log2 n d - 52) (- 1074)
      in (if 0 \<le> e then round_half_even n (d * 2 ^ nat e)
          else round_half_even (n * 2 ^ nat (- e)) d, e))"

text \<open>Beyond the largest finite double.\<close>

definition overflows :: "int \<times> int \<Rightarrow> bool" where
  "overflows x = (case x of (m, e) \<Rightarrow> 0 \<le> e \<and> 2 ^ 1024 \<le> m * 2 ^ nat e)"

text \<open>\<open>int(x)\<close> of a double \<open>x \<ge> 0\<close>.\<close>

definition int_of_double :: "int \<times> int \<Rightarrow> int" where
  "int_of_double x = (case x of (m, e) \<Rightarrow> if 0 \<le> e then m * 2 ^ nat e else m div 2 ^ nat (- e))"

text \<open>
  \<open>int((a / b) * 100)\<close>: the division raises \<open>ZeroDivisionError\<close> for \<open>b = 0\<close> and
  \<open>OverflowError\<close> when the quotient is too large for a double; a product beyond the
  doubles is infinite, and \<open>int\<close> raises \<open>OverflowError\<close> on it.
\<close>

definition int_percent :: "int \<Rightarrow> int \<Rightarrow> exn + int" where
  "int_percent a b =
     (if b = 0 then Inl ZeroDivisionError
      else
        (let q = round_double \<bar>a\<bar> \<bar>b\<bar> in
         if overflows q then Inl (OverflowError ''integer division result too large for a float'')
         else
           (let p = round_double (100 * fst q * 2 ^ nat (snd q)) (2 ^ nat (- snd q)) in
            if overflows p then Inl (OverflowError ''cannot convert float infinity to integer'')
            else Inr (sgn a * sgn b * int_of_double p))))"

text \<open>
  The slot that receives the progress signal of the download job:
  \<^verbatim>\<open>
  def update_progress(self, current, total):
      progress = int((current / total) * 100)
      self.progress_bar.setValue(progress)
  \<close>
  The result is the value handed to the progress bar, or the exception raised before.
\<close>

definition update_progress :: "int \<Rightarrow> int \<Rightarrow> exn + int" where
  "update_progress current tot = int_percent current tot"

text \<open>
  The signal is declared \<open>pyqtSignal(int, int)\<close>: the two Python integers of an emission
  reach the slot as C++ integers of 32 bits. The conversion is the work of the signal
  machinery, which is no part of the source; it is the parameter \<open>conv\<close>, which gives
  the integer that arrives or the exception raised instead. \<open>progress_shown\<close> is what an
  emitted event comes to: the value handed to the progress bar, or the exception.
\<close>

definition progress_shown :: "(int \<Rightarrow> exn + int) \<Rightarrow> int \<Rightarrow> int \<Rightarrow> exn + int" where
  "progress_shown conv current tot =
     (case conv current of
        Inl e \<Rightarrow> Inl e
      | Inr c \<Rightarrow> (case conv tot of Inl e \<Rightarrow> Inl e | Inr t \<Rightarrow> update_progress c t))"

text \<open>
  The one property of the conversion that is used: an integer in the range of a 32 bit
  integer arrives unchanged.
\<close>

definition keeps_c_ints :: "(int \<Rightarrow> exn + int) \<Rightarrow> bool" where
  "keeps_c_ints conv = (\<forall>x. - (2 ^ 31) \<le> x \<and> x < 2 ^ 31 \<longrightarrow> conv x = Inr x)"


section \<open>UpdateWorker: choosing the release asset\<close>

text \<open>
  An entry of the \<open>assets\<close> list of the release feed; a field is \<open>None\<close> when the entry
  has no such key.
\<close>

record asset =
  asset_name :: "string option"
  asset_url :: "string option"

text \<open>
  \<^verbatim>\<open>
  arch = platform.machine().lower()
  if 'arm' in arch:
      preferred_tokens = ['arm64', 'aarch64']
  elif '64' in arch or arch in ('amd64', 'x86_64'):
      preferred_tokens = ['x64', 'amd64', 'win64']
  else:
      preferred_tokens = ['win32', 'x86']
  \<close>
\<close>

definition preferred_tokens :: "string \<Rightarrow> string list" where
  "preferred_tokens arch =
     (if contains ''arm'' arch then [''arm64'', ''aarch64'']
      else if contains ''64'' arch \<or> arch = ''amd64'' \<or> arch = ''x86_64''
      then [''x64'', ''amd64'', ''win64'']
      else [''win32'', ''x86''])"

text \<open>
  The test of the first pass, on \<open>name = asset.get('name', '').lower()\<close>:
  \<^verbatim>\<open>
  name.endswith('.exe') and 'spotdl' in name and 'win' in name
      and any(t in name for t in preferred_tokens)
  \<close>
\<close>

definition arch_match :: "string list \<Rightarrow> asset \<Rightarrow> bool" where
  "arch_match tokens a =
     (let name = lower (case asset_name a of None \<Rightarrow> [] | Some n \<Rightarrow> n)
      in ends_with ''.exe'' name \<and> contains ''spotdl'' name \<and> contains ''win'' name
         \<and> list_ex (\<lambda>t. contains t name) tokens)"

text \<open>The first loop: \<open>download_url\<close> starts as \<open>None\<close>, the first match sets it and breaks.\<close>

fun first_pass :: "string list \<Rightarrow> asset list \<Rightarrow> string option" where
  "first_pass tokens [] = None"
| "first_pass tokens (a # rest) =
     (if arch_match tokens a then asset_url a else first_pass tokens rest)"

text \<open>\<open>legacy_name = f"spotdl-{latest_tag}-win32.exe"\<close>\<close>

definition legacy_name :: "string \<Rightarrow> string" where
  "legacy_name latest_tag = ''spotdl-'' @ latest_tag @ ''-win32.exe''"

text \<open>The second loop, run when \<open>download_url\<close> is empty after the first.\<close>

fun legacy_pass :: "string \<Rightarrow> string option \<Rightarrow> asset list \<Rightarrow> string option" where
  "legacy_pass legacy download_url [] = download_url"
| "legacy_pass legacy download_url (a # rest) =
     (if asset_name a = Some legacy then asset_url a else legacy_pass legacy download_url rest)"

text \<open>The value of \<open>download_url\<close> after both loops; the download starts when it is not empty.\<close>

definition select_asset :: "string \<Rightarrow> string \<Rightarrow> asset list \<Rightarrow> string option" where
  "select_asset arch latest_tag assets =
     (let download_url = first_pass (preferred_tokens arch) assets
      in if \<not> truthy download_url then legacy_pass (legacy_name latest_tag) download_url assets
         else download_url)"


section \<open>UpdateWorker: the job\<close>

text \<open>The parsed answer of the release feed: \<open>tag_name\<close> and \<open>assets\<close>, each possibly absent.\<close>

record release =
  tag_name :: "string option"
  release_assets :: "asset list option"

text \<open>
  The answer to the request for the chosen asset: the value of
  \<open>int(response.headers.get('Content-Length', 0))\<close> (or the exception it raises), the
  successive results of \<open>response.read(block_size)\<close>, and the exception that a read or a
  write raises after them, if one does; otherwise the next read returns no bytes.
\<close>

record response =
  content_length :: "exn + int"
  chunks :: "string list"
  stream_error :: "exn option"

text \<open>
  What the surroundings answer to the calls of the update job. As in the download job,
  the result of the undefined \<open>app_base_dir\<close> is a field.
\<close>

record upd_env =
  base_dir :: "exn + string"
  join :: "string \<Rightarrow> string \<Rightarrow> string"
  check_output :: "string list \<Rightarrow> exn + string"
  latest_release :: "exn + release"
  machine :: string
  open_asset :: "string \<Rightarrow> exn + response"
  open_error :: "exn option"
  replace_error :: "exn option"
  remove_error :: "exn option"
  rename_error :: "exn option"

text \<open>The files on disk: the content at each path that exists.\<close>

type_synonym files = "string \<Rightarrow> string option"

text \<open>The signals of the update worker and its calls to the outside, in order.\<close>

datatype upd_action =
    Status string
  | Start_progress
  | Percent int
  | Finished
  | Check_output "string list"
  | Url_open string
  | Open_write string
  | Write string string
  | Replace string string
  | Remove string
  | Rename string string

text \<open>How the \<open>try\<close> block of \<open>run\<close> ends: by its \<open>return\<close>, at its end, or by an exception.\<close>

datatype ending = Returned | Completed | Raised exn

text \<open>\<open>current_version = output.split()[-1]\<close> on the decoded, stripped output\<close>

definition last_token :: "string \<Rightarrow> exn + string" where
  "last_token output =
     (case split_ws (strip output) of [] \<Rightarrow> Inl IndexError | w # ws \<Rightarrow> Inr (last (w # ws)))"

text \<open>\<open>latest_tag = data.get('tag_name', '').lstrip('v')\<close>\<close>

definition latest_tag_of :: "release \<Rightarrow> string" where
  "latest_tag_of data =
     dropWhile (\<lambda>c. c = CHR ''v'') (case tag_name data of None \<Rightarrow> [] | Some t \<Rightarrow> t)"

text \<open>
  \<^verbatim>\<open>
  while True:
      chunk = response.read(block_size)
      if not chunk:
          break
      file.write(chunk)
      downloaded += len(chunk)
      if total_size > 0:
          progress = int((downloaded / total_size) * 100)
          self.update_progress.emit(progress)
  \<close>
\<close>

fun write_chunks ::
  "int \<Rightarrow> string \<Rightarrow> string list \<Rightarrow> int \<Rightarrow> files \<Rightarrow> upd_action list \<times> files \<times> exn option" where
  "write_chunks total_size temp_path [] downloaded fs = ([], fs, None)"
| "write_chunks total_size temp_path (chunk # rest) downloaded fs =
     (if chunk = [] then ([], fs, None)
      else
        (let fs' = fs(temp_path \<mapsto> (case fs temp_path of None \<Rightarrow> [] | Some c \<Rightarrow> c) @ chunk);
             downloaded' = downloaded + int (length chunk)
         in if 0 < total_size then
              (case int_percent downloaded' total_size of
                 Inl e \<Rightarrow> ([Write temp_path chunk], fs', Some e)
               | Inr progress \<Rightarrow>
                   (case write_chunks total_size temp_path rest downloaded' fs' of
                      (acts, fs'', r) \<Rightarrow> (Write temp_path chunk # Percent progress # acts, fs'', r)))
            else
              (case write_chunks total_size temp_path rest downloaded' fs' of
                 (acts, fs'', r) \<Rightarrow> (Write temp_path chunk # acts, fs'', r))))"

text \<open>
  \<^verbatim>\<open>
  try:
      os.replace(temp_path, spotdl_path)
  except Exception:
      # Fallback to remove+rename
      if os.path.exists(spotdl_path):
          try:
              os.remove(spotdl_path)
          except Exception:
              pass
      if os.path.exists(temp_path):
          os.rename(temp_path, spotdl_path)
  \<close>
\<close>

definition replace_binary ::
  "upd_env \<Rightarrow> string \<Rightarrow> string \<Rightarrow> files \<Rightarrow> upd_action list \<times> files \<times> exn option" where
  "replace_binary env temp_path spotdl_path fs =
     (case replace_error env of
        None \<Rightarrow>
          ([Replace temp_path spotdl_path],
           (fs(spotdl_path := fs temp_path))(temp_path := None), None)
      | Some _ \<Rightarrow>
          (let removal =
                 (if fs spotdl_path \<noteq> None then
                    (case remove_error env of
                       None \<Rightarrow> ([Remove spotdl_path], fs(spotdl_path := None))
                     | Some _ \<Rightarrow> ([Remove spotdl_path], fs))
                  else ([], fs));
               acts = Replace temp_path spotdl_path # fst removal;
               fs1 = snd removal
           in if fs1 temp_path \<noteq> None then
                (case rename_error env of
                   None \<Rightarrow>
                     (acts @ [Rename temp_path spotdl_path],
                      (fs1(spotdl_path := fs1 temp_path))(temp_path := None), None)
                 | Some e \<Rightarrow> (acts @ [Rename temp_path spotdl_path], fs1, Some e))
              else (acts, fs1, None)))"

text \<open>The download of the chosen asset and the replacement: the body of \<open>if download_url:\<close>.\<close>

definition download_asset ::
  "upd_env \<Rightarrow> string \<Rightarrow> string \<Rightarrow> files \<Rightarrow> upd_action list \<times> files \<times> ending" where
  "download_asset env spotdl_path download_url fs =
     (case open_asset env download_url of
        Inl e \<Rightarrow> ([Start_progress, Url_open download_url], fs, Raised e)
      | Inr resp \<Rightarrow>
         (case content_length resp of
            Inl e \<Rightarrow> ([Start_progress, Url_open download_url], fs, Raised e)
          | Inr total_size \<Rightarrow>
             (let temp_path = spotdl_path @ ''.new'';
                  pre = [Start_progress, Url_open download_url, Open_write temp_path]
              in case open_error env of
                   Some e \<Rightarrow> (pre, fs, Raised e)
                 | None \<Rightarrow>
                    (case write_chunks total_size temp_path (chunks resp) 0 (fs(temp_path \<mapsto> [])) of
                       (acts, fs1, Some e) \<Rightarrow> (pre @ acts, fs1, Raised e)
                     | (acts, fs1, None) \<Rightarrow>
                        (case stream_error resp of
                           Some e \<Rightarrow> (pre @ acts, fs1, Raised e)
                         | None \<Rightarrow>
                            (case replace_binary env temp_path spotdl_path fs1 of
                               (acts2, fs2, Some e) \<Rightarrow> (pre @ acts @ acts2, fs2, Raised e)
                             | (acts2, fs2, None) \<Rightarrow> (pre @ acts @ acts2, fs2, Completed)))))))"

definition releases_url :: string where
  "releases_url = ''https://api.github.com/repos/spotdl/spotify-downloader/releases/latest''"

text \<open>The \<open>try\<close> block of \<open>UpdateWorker.run\<close>.\<close>

definition update_body :: "upd_env \<Rightarrow> files \<Rightarrow> upd_action list \<times> files \<times> ending" where
  "update_body env fs =
     (case base_dir env of
        Inl e \<Rightarrow> ([], fs, Raised e)
      | Inr spotdl_dir \<Rightarrow>
         (let spotdl_path = join env spotdl_dir ''spotdl.exe'' in
          if fs spotdl_path = None then ([Finished], fs, Returned)
          else
            (case check_output env [spotdl_path, ''--version''] of
               Inl e \<Rightarrow> ([Check_output [spotdl_path, ''--version'']], fs, Raised e)
             | Inr output \<Rightarrow>
                (case last_token output of
                   Inl e \<Rightarrow> ([Check_output [spotdl_path, ''--version'']], fs, Raised e)
                 | Inr current_version \<Rightarrow>
                    (let pre = [Check_output [spotdl_path, ''--version''], Url_open releases_url] in
                     case latest_release env of
                       Inl e \<Rightarrow> (pre, fs, Raised e)
                     | Inr data \<Rightarrow>
                        (let latest_tag = latest_tag_of data in
                         case update_wanted latest_tag current_version of
                           Inl e \<Rightarrow> (pre, fs, Raised e)
                         | Inr False \<Rightarrow> (pre, fs, Completed)
                         | Inr True \<Rightarrow>
                           (let download_url =
                                  select_asset (lower (machine env)) latest_tag
                                    (case release_assets data of None \<Rightarrow> [] | Some l \<Rightarrow> l)
                            in if truthy download_url then
                                 (case download_asset env spotdl_path (the download_url) fs of
                                    (acts, fs', r) \<Rightarrow>
                                      (pre @ [Status ''Downloading spotDL update...''] @ acts, fs', r))
                               else (pre @ [Status ''Downloading spotDL update...''], fs, Completed))))))))"

text \<open>
  \<open>UpdateWorker.run\<close>: the handler \<open>except Exception: pass\<close> swallows what the block raises,
  and \<open>self.finished.emit()\<close> follows unless the block has returned.
\<close>

record upd_result =
  upd_actions :: "upd_action list"
  files_after :: files

definition UpdateWorker_run :: "upd_env \<Rightarrow> files \<Rightarrow> upd_result" where
  "UpdateWorker_run env fs =
     (case update_body env fs of
        (acts, fs', Returned) \<Rightarrow> \<lparr>upd_actions = acts, files_after = fs'\<rparr>
      | (acts, fs', Completed) \<Rightarrow> \<lparr>upd_actions = acts @ [Finished], files_after = fs'\<rparr>
      | (acts, fs', Raised e) \<Rightarrow> \<lparr>upd_actions = acts @ [Finished], files_after = fs'\<rparr>)"


section \<open>Concrete runs\<close>

text \<open>Requests, surroundings and disks at which the jobs are evaluated below.\<close>

definition sample_request :: request where
  "sample_request =
     \<lparr>url = ''https://open.spotify.com/track/abc'', download_path = ''C:/Music'',
      quality = ''320k'', format_type = ''mp3'', use_auth = False\<rparr>"

definition empty_request :: request where
  "empty_request = sample_request\<lparr>url := []\<rparr>"

text \<open>
  The source file as it stands: \<open>app_base_dir\<close> is not defined and \<open>shutil\<close> is not
  imported. Every directory can be entered.
\<close>

definition env_as_written :: dl_env where
  "env_as_written =
     \<lparr>chdir_error = (\<lambda>p. None),
      app_base_dir = Inl (NameError ''app_base_dir''),
      which = (\<lambda>n. Inl (NameError ''shutil'')),
      path_join = (\<lambda>a b. a @ ''/'' @ b),
      isfile = (\<lambda>p. p = ''C:/App/ffmpeg.exe'' \<or> p = ''C:/App/spotdl.exe''),
      popen = (\<lambda>c. Inr \<lparr>stdout_lines = [], read_error = None, return_code = 0\<rparr>),
      now = ''2024-05-01 12:00:00''\<rparr>"

text \<open>The same with a helper \<open>app_base_dir\<close> that returns the install directory.\<close>

definition env_base_dir_given :: dl_env where
  "env_base_dir_given = env_as_written\<lparr>app_base_dir := Inr ''C:/App''\<rparr>"

text \<open>
  Both names repaired and both executables beside the application; the downloader
  announces three tracks, downloads them and exits with 0.
\<close>

definition three_track_lines :: "string list" where
  "three_track_lines =
     [''Found 3 tracks'' @ [CHR 0x0A], ''Downloading One'' @ [CHR 0x0A],
      ''Downloading Two'' @ [CHR 0x0A], ''Downloading Three'' @ [CHR 0x0A]]"

definition env_installed :: dl_env where
  "env_installed =
     env_as_written
       \<lparr>app_base_dir := Inr ''C:/App'',
        which := (\<lambda>n. Inr None),
        popen := (\<lambda>c. Inr \<lparr>stdout_lines = three_track_lines, read_error = None,
                              return_code = 0\<rparr>)\<rparr>"

text \<open>The same, but the download directory cannot be entered.\<close>

definition env_no_directory :: dl_env where
  "env_no_directory =
     env_installed
       \<lparr>chdir_error :=
          (\<lambda>p. if p = ''C:/Music'' then Some (Error ''The system cannot find the file specified'')
               else None)\<rparr>"

definition is_complete :: "action \<Rightarrow> bool" where
  "is_complete a = (case a of Complete ok msg content stamp \<Rightarrow> True | _ \<Rightarrow> False)"

text \<open>
  An update run: version 4.2.0 is installed, the feed offers 4.2.1 with the asset of the
  legacy name, the download succeeds; \<open>os.replace\<close> and \<open>os.rename\<close> are refused while
  \<open>os.remove\<close> is not.
\<close>

definition upd_env_sample :: upd_env where
  "upd_env_sample =
     \<lparr>base_dir = Inr ''C:/App'',
      join = (\<lambda>a b. a @ ''/'' @ b),
      check_output = (\<lambda>c. Inr (''spotdl 4.2.0'' @ [CHR 0x0A])),
      latest_release =
        Inr \<lparr>tag_name = Some ''v4.2.1'',
             release_assets =
               Some [\<lparr>asset_name = Some ''spotdl-4.2.1-win32.exe'',
                      asset_url = Some ''https://example.org/spotdl-4.2.1-win32.exe''\<rparr>]\<rparr>,
      machine = ''AMD64'',
      open_asset = (\<lambda>u. Inr \<lparr>content_length = Inr 4, chunks = [''MZ'', ''PE''],
                              stream_error = None\<rparr>),
      open_error = None,
      replace_error = Some (Error ''Access is denied''),
      remove_error = None,
      rename_error = Some (Error ''Access is denied'')\<rparr>"



definition disk_sample :: files where
  "disk_sample = (\<lambda>p. if p = ''C:/App/spotdl.exe'' then Some ''old binary'' else None)"


text \<open>\<open>'.'.join(ps)\<close>: the version string with the components \<open>ps\<close>.\<close>

fun dotted :: "string list \<Rightarrow> string" where
  "dotted [] = []"
| "dotted [p] = p"
| "dotted (p # q # ps) = p @ CHR ''.'' # dotted (q # ps)"


text \<open>Output lines of the downloader, each with its newline.\<close>

definition both_line :: string where
  "both_line = ''Downloading Found 5 tracks'' @ [CHR 0x0A]"

definition found_line :: string where
  "found_line = ''Found 5 tracks'' @ [CHR 0x0A]"

definition zero_total_lines :: "string list" where
  "zero_total_lines = [''Found 0 tracks'' @ [CHR 0x0A], ''Downloading One'' @ [CHR 0x0A]]"

definition early_lines :: "string list" where
  "early_lines =
     [''Downloading One'' @ [CHR 0x0A], ''Downloading Two'' @ [CHR 0x0A],
      ''Found 2 tracks'' @ [CHR 0x0A]]"

text \<open>A conversion to 32 bits that wraps around.\<close>

definition wrap_conv :: "int \<Rightarrow> exn + int" where
  "wrap_conv x = Inr ((x + 2 ^ 31) mod 2 ^ 32 - 2 ^ 31)"

text \<open>A disk on which the downloader is not installed.\<close>

definition disk_without_binary :: files where
  "disk_without_binary = (\<lambda>p. if p = ''C:/App/ffmpeg.exe'' then Some ''ffmpeg'' else None)"


section \<open>The history cap\<close>

text \<open>
  Claim C7. Inserting an entry into a history of 100 entries puts the entry in front and
  drops exactly the last (oldest) one: the list keeps 100 entries, the others in their
  order. From a history of at most 100 entries the insertion never gives more than 100.
\<close>

theorem add_to_history_cap:
  "(length h = 100 \<longrightarrow> add_to_history e h = e # butlast h \<and> length (add_to_history e h) = 100)
   \<and> (length h \<le> 100 \<longrightarrow> length (add_to_history e h) \<le> 100)"
  by (auto simp: add_to_history_def Let_def butlast_conv_take)

theorem add_to_history_cap_witness:
  "length [1..<101] = 100
   \<and> add_to_history (0::nat) [1..<101] = 0 # butlast [1..<101]
   \<and> length (add_to_history (0::nat) [1..<101]) = 100"
proof -
  have l: "length [1..<101] = 100" by simp
  show ?thesis using add_to_history_cap [of "[1..<101]" "0::nat"] l by simp
qed


section \<open>Version comparison\<close>

lemma split_acc_no_sep: "sep \<notin> set p \<Longrightarrow> split_acc sep cur p = [cur @ p]"
  by (induction p arbitrary: cur) auto

lemma split_acc_sep:
  "sep \<notin> set p \<Longrightarrow> split_acc sep cur (p @ sep # rest) = (cur @ p) # split_acc sep [] rest"
  by (induction p arbitrary: cur) auto

lemma split_on_dotted:
  "ps \<noteq> [] \<Longrightarrow> \<forall>p\<in>set ps. CHR ''.'' \<notin> set p \<Longrightarrow> split_on CHR ''.'' (dotted ps) = ps"
proof (induction ps rule: dotted.induct)
  case 1
  then show ?case by simp
next
  case (2 p)
  then show ?case by (simp add: split_on_def split_acc_no_sep)
next
  case (3 p q ps)
  then show ?case by (simp add: split_on_def split_acc_sep)
qed

lemma py_int_digits:
  assumes "\<forall>c\<in>set ds. is_digit c" and "ds \<noteq> []" and "length ds \<le> 4300"
  shows "py_int ds = Inr (int_of_digits ds)"
proof -
  have front: "takeWhile is_digit ds = ds"
    using assms(1) by (simp add: takeWhile_eq_all_conv)
  show ?thesis
    unfolding py_int_def Let_def front using assms(2,3) by simp
qed

lemma py_int_other:
  assumes "c \<in> set num" and "\<not> is_digit c"
  shows "\<exists>msg. py_int num = Inl (ValueError msg)"
proof -
  have "takeWhile is_digit num \<noteq> num"
    using assms by (auto simp: takeWhile_eq_all_conv)
  then show ?thesis
    by (simp add: py_int_def Let_def)
qed

lemma version_part_suffix:
  assumes "\<forall>c\<in>set ds. is_digit c" and "ds \<noteq> []" and "length ds \<le> 4300"
    and "\<forall>c\<in>set suffix. \<not> isdigit c"
  shows "version_part (ds @ suffix) = Inr (int_of_digits ds)"
proof -
  have "filter isdigit (ds @ suffix) = ds"
    using assms by (simp add: filter_id_conv isdigit_def)
  then show ?thesis
    using assms by (simp add: version_part_def py_int_digits)
qed

lemma version_part_no_digit: "\<forall>c\<in>set p. \<not> isdigit c \<Longrightarrow> version_part p = Inr 0"
  by (simp add: version_part_def Let_def filter_empty_conv)

lemma version_part_superscript:
  assumes "c \<in> set p" and "c \<in> set [CHR 0xB2, CHR 0xB3, CHR 0xB9]"
  shows "\<exists>msg. version_part p = Inl (ValueError msg)"
proof -
  have d: "isdigit c" and n: "\<not> is_digit c"
    using assms(2) by (auto simp: isdigit_def is_digit_def)
  from assms(1) d have m: "c \<in> set (filter isdigit p)"
    by simp
  then have "filter isdigit p \<noteq> []"
    by (cases "filter isdigit p") simp_all
  with py_int_other [OF m n] show ?thesis
    by (simp add: version_part_def)
qed

lemma tuple_less_lexord: "tuple_less xs ys \<longleftrightarrow> (xs, ys) \<in> lexord {(a, b). a < b}"
  by (induction xs ys rule: tuple_less.induct) auto

lemma tuple_less_irrefl: "\<not> tuple_less xs xs"
  by (induction xs) auto

lemma tuple_less_prefix: "tuple_less xs (xs @ y # ys)"
  by (induction xs) auto

lemmas version_eval =
  version_tuple_def split_on_def version_part_def py_int_def isdigit_def is_digit_def
  int_of_digits_def digit_value_def update_wanted_def Let_def

text \<open>
  Claim C4, as the code has it. A version string is split at its dots and the components
  are turned into integers one after the other: a component made of a decimal number (of
  at most 4300 digits) and a suffix without digits gives that number, a component without
  digits gives 0, and a component with a superscript digit, which \<open>isdigit\<close> accepts and
  \<open>int\<close> refuses, raises \<open>ValueError\<close>. Where both strings give a list of integers, the
  lists are compared as Python compares tuples, lexicographically and without padding, so
  that a version is smaller than every longer version it is a prefix of; the remote version
  wins only if its list is strictly greater. In particular \<open>1.2.3\<close> and \<open>1.2.3-beta\<close> both
  give \<open>(1, 2, 3)\<close>, and \<open>2.0\<close> is greater than \<open>1.9.9\<close>.
\<close>

theorem version_comparison:
  "(ps \<noteq> [] \<and> (\<forall>p\<in>set ps. CHR ''.'' \<notin> set p) \<longrightarrow>
      version_tuple (dotted ps) = version_parts ps)
   \<and> ((\<forall>c\<in>set ds. is_digit c) \<and> ds \<noteq> [] \<and> length ds \<le> 4300
        \<and> (\<forall>c\<in>set suffix. \<not> isdigit c) \<longrightarrow>
      version_part (ds @ suffix) = Inr (int_of_digits ds))
   \<and> ((\<forall>c\<in>set p. \<not> isdigit c) \<longrightarrow> version_part p = Inr 0)
   \<and> (c \<in> set q \<and> c \<in> set [CHR 0xB2, CHR 0xB3, CHR 0xB9] \<longrightarrow>
        (\<exists>msg. version_part q = Inl (ValueError msg)))
   \<and> (version_tuple remote = Inr r \<and> version_tuple current = Inr l \<longrightarrow>
        update_wanted remote current
          = Inr (remote \<noteq> [] \<and> (l, r) \<in> lexord {(a, b). a < b}))
   \<and> tuple_less xs (xs @ y # ys)
   \<and> update_wanted v v \<noteq> Inr True
   \<and> version_tuple ''1.2.3'' = Inr [1, 2, 3]
   \<and> version_tuple ''1.2.3-beta'' = Inr [1, 2, 3]
   \<and> update_wanted ''2.0'' ''1.9.9'' = Inr True"
proof -
  have examples:
    "version_tuple ''1.2.3'' = Inr [1, 2, 3]"
    "version_tuple ''1.2.3-beta'' = Inr [1, 2, 3]"
    "update_wanted ''2.0'' ''1.9.9'' = Inr True"
    by (simp_all add: version_eval)
  have cmp: "version_tuple remote = Inr r \<and> version_tuple current = Inr l \<longrightarrow>
        update_wanted remote current
          = Inr (remote \<noteq> [] \<and> (l, r) \<in> lexord {(a, b). a < b})"
    by (simp add: update_wanted_def tuple_less_lexord)
  have same: "update_wanted v v \<noteq> Inr True"
    by (simp add: update_wanted_def tuple_less_irrefl split: sum.splits)
  have sup: "c \<in> set q \<and> c \<in> set [CHR 0xB2, CHR 0xB3, CHR 0xB9] \<longrightarrow>
        (\<exists>msg. version_part q = Inl (ValueError msg))"
    using version_part_superscript [of c q] by blast
  have parts: "ps \<noteq> [] \<and> (\<forall>p\<in>set ps. CHR ''.'' \<notin> set p) \<longrightarrow>
      version_tuple (dotted ps) = version_parts ps"
    using split_on_dotted [of ps] by (simp add: version_tuple_def)
  have suf: "(\<forall>c\<in>set ds. is_digit c) \<and> ds \<noteq> [] \<and> length ds \<le> 4300
        \<and> (\<forall>c\<in>set suffix. \<not> isdigit c) \<longrightarrow>
      version_part (ds @ suffix) = Inr (int_of_digits ds)"
    using version_part_suffix [of ds suffix] by blast
  have none: "(\<forall>c\<in>set p. \<not> isdigit c) \<longrightarrow> version_part p = Inr 0"
    using version_part_no_digit [of p] by blast
  show ?thesis
    using examples cmp same sup parts suf none tuple_less_prefix [of xs y ys] by blast
qed

theorem version_comparison_witness:
  "version_tuple (dotted [''4'', ''12'', ''0-beta'']) = Inr [4, 12, 0]
   \<and> version_part (''12'' @ ''-beta'') = Inr 12
   \<and> version_part ''beta'' = Inr 0
   \<and> (\<exists>msg. version_part (''3'' @ [CHR 0xB2]) = Inl (ValueError msg))
   \<and> update_wanted ''2.0'' ''1.9.9'' = Inr True
   \<and> tuple_less [2, 0] ([2, 0] @ 0 # [])
   \<and> update_wanted ''1.2.3'' ''1.2.3'' \<noteq> Inr True"
proof -
  have h1: "[''4'', ''12'', ''0-beta''] \<noteq> [] \<and> (\<forall>p\<in>set [''4'', ''12'', ''0-beta'']. CHR ''.'' \<notin> set p)"
    by simp
  have h2: "(\<forall>c\<in>set ''12''. is_digit c) \<and> ''12'' \<noteq> [] \<and> length ''12'' \<le> 4300
      \<and> (\<forall>c\<in>set ''-beta''. \<not> isdigit c)"
    by (simp add: is_digit_def isdigit_def)
  have h3: "\<forall>c\<in>set ''beta''. \<not> isdigit c"
    by (simp add: is_digit_def isdigit_def)
  have h4: "CHR 0xB2 \<in> set (''3'' @ [CHR 0xB2]) \<and> CHR 0xB2 \<in> set [CHR 0xB2, CHR 0xB3, CHR 0xB9]"
    by simp
  have h5: "version_tuple ''2.0'' = Inr [2, 0] \<and> version_tuple ''1.9.9'' = Inr [1, 9, 9]"
    by (simp add: version_eval)
  have v: "version_parts [''4'', ''12'', ''0-beta''] = Inr [4, 12, 0]"
    by (simp add: version_eval)
  have n: "int_of_digits ''12'' = 12"
    by (simp add: version_eval)
  show ?thesis
    using version_comparison
      [of "[''4'', ''12'', ''0-beta'']" "''12''" "''-beta''" "''beta''" "CHR 0xB2"
          "''3'' @ [CHR 0xB2]" "''2.0''" "[2, 0]" "''1.9.9''" "[1, 9, 9]"
          "[2, 0]" 0 "[]" "''1.2.3''"]
      h1 h2 h3 h4 h5 v n
    by simp
qed

text \<open>
  Against claim C4 as stated: the installed \<open>2.0\<close> lacks the third component of the remote
  \<open>2.0.0\<close>; with the missing component taken as 0 the two are equal and the remote does not
  win, while the code takes the remote as newer. And the digits of a suffix are not
  stripped but appended to the number: \<open>1.2.3-rc1\<close> gives \<open>(1, 2, 31)\<close>.
\<close>

theorem version_comparison_counterexample:
  "update_wanted ''2.0.0'' ''2.0'' = Inr True
   \<and> \<not> spec_newer ''2.0.0'' ''2.0''
   \<and> version_tuple ''1.2.3-rc1'' = Inr [1, 2, 31]
   \<and> spec_version_tuple ''1.2.3-rc1'' = [1, 2, 3]"
  by (simp add: version_eval spec_newer_def spec_version_tuple_def spec_version_part_def
      pad_zero_def)


section \<open>Asset selection\<close>







section \<open>The line loop\<close>

lemmas line_eval =
  handle_line_def console_part_def loop_init_def strip_def is_space_def
  is_digit_def int_of_digits_def digit_value_def Let_def

text \<open>
  Claim C8. A line that contains \<open>Downloading\<close> raises the track counter by one and emits
  one progress event with the new counter and the unchanged total, whatever else the line
  contains, a \<open>Found N tracks\<close> pattern included. The total changes only on a line that
  contains \<open>Found\<close> and does not contain \<open>Downloading\<close>, and then to the number found in it.
\<close>

theorem downloading_line:
  "(contains ''Downloading'' line \<longrightarrow>
      total_tracks (snd (handle_line line st)) = total_tracks st
    \<and> current_track (snd (handle_line line st)) = current_track st + 1
    \<and> fst (handle_line line st)
        = console_part line @ [Progress (current_track st + 1) (total_tracks st)])
   \<and> (total_tracks (snd (handle_line line st)) \<noteq> total_tracks st \<longrightarrow>
        contains ''Found'' line \<and> \<not> contains ''Downloading'' line
        \<and> search_found line = Some (total_tracks (snd (handle_line line st))))"
  by (auto simp: handle_line_def Let_def split: option.splits)

theorem downloading_line_witness:
  "contains ''Downloading'' both_line \<and> search_found both_line = Some 5
   \<and> total_tracks (snd (handle_line both_line loop_init)) = 1
   \<and> current_track (snd (handle_line both_line loop_init)) = 1
   \<and> fst (handle_line both_line loop_init)
       = [Console ''Downloading Found 5 tracks'', Progress 1 1]
   \<and> total_tracks (snd (handle_line found_line loop_init)) = 5
   \<and> contains ''Found'' found_line \<and> \<not> contains ''Downloading'' found_line"
proof -
  have h1: "contains ''Downloading'' both_line"
    by (simp add: both_line_def)
  have h2: "search_found both_line = Some 5"
    by (simp add: both_line_def line_eval)
  have h3: "total_tracks (snd (handle_line found_line loop_init)) \<noteq> total_tracks loop_init"
    by (simp add: found_line_def line_eval)
  have h4: "total_tracks (snd (handle_line found_line loop_init)) = 5"
    by (simp add: found_line_def line_eval)
  have c: "console_part both_line = [Console ''Downloading Found 5 tracks'']"
    by (simp add: both_line_def line_eval)
  show ?thesis
    using downloading_line [of both_line loop_init] downloading_line [of found_line loop_init]
      h1 h2 h3 h4 c
    by (simp add: loop_init_def)
qed


section \<open>The progress percentage\<close>

lemma bit_length_mono: "a \<le> b \<Longrightarrow> bit_length a \<le> bit_length b"
proof (induction a arbitrary: b rule: bit_length.induct)
  case (1 n)
  show ?case
  proof (cases "n \<le> 0")
    case True
    then show ?thesis by (simp add: bit_length.simps [of n])
  next
    case False
    with "1.prems" have "\<not> b \<le> 0" by simp
    have "n div 2 \<le> b div 2" using "1.prems" by (simp add: zdiv_mono1)
    with False "1.IH" have "bit_length (n div 2) \<le> bit_length (b div 2)" by simp
    with False \<open>\<not> b \<le> 0\<close> show ?thesis
      by (simp add: bit_length.simps [of n] bit_length.simps [of b])
  qed
qed

lemma bit_length_less_power: "n < 2 ^ j \<Longrightarrow> bit_length n \<le> j"
proof (induction j arbitrary: n)
  case 0
  then show ?case by (simp add: bit_length.simps [of n])
next
  case (Suc j)
  show ?case
  proof (cases "n \<le> 0")
    case True
    then show ?thesis by (simp add: bit_length.simps [of n])
  next
    case False
    from Suc.prems have "n div 2 < 2 ^ j" by simp
    then have "bit_length (n div 2) \<le> j" by (rule Suc.IH)
    with False show ?thesis by (simp add: bit_length.simps [of n])
  qed
qed

lemma bit_length_power: "bit_length (2 ^ s) = Suc s"
proof (induction s)
  case 0
  show ?case by (simp add: bit_length.simps [of 1] bit_length.simps [of 0])
next
  case (Suc s)
  have "(2::int) ^ Suc s div 2 = 2 ^ s" by simp
  moreover have "\<not> (2::int) ^ Suc s \<le> 0" by (simp add: not_le)
  ultimately show ?case using Suc by (simp add: bit_length.simps [of "2 ^ Suc s"] del: power_Suc)
qed

lemma round_half_even_le:
  assumes "0 < b" "a \<le> N * b"
  shows "round_half_even a b \<le> N"
proof -
  have q: "a div b \<le> N"
    using assms by (metis zdiv_mono1 nonzero_mult_div_cancel_right less_irrefl)
  show ?thesis
  proof (cases "a div b = N")
    case False
    with q show ?thesis by (simp add: round_half_even_def Let_def)
  next
    case True
    have "a = b * (a div b) + a mod b" by simp
    with True assms have "a mod b \<le> 0" by (smt (verit) mult.commute)
    moreover have "0 \<le> a mod b" using assms by simp
    ultimately have "a mod b = 0" by simp
    with True assms show ?thesis by (simp add: round_half_even_def Let_def)
  qed
qed

lemma round_half_even_nonneg: "0 < b \<Longrightarrow> 0 \<le> a \<Longrightarrow> 0 \<le> round_half_even a b"
  by (simp add: round_half_even_def Let_def pos_imp_zdiv_nonneg_iff)

lemma floor_log2_le: "floor_log2 n d \<le> int (bit_length n) - int (bit_length d)"
  by (simp add: floor_log2_def Let_def)


lemma round_half_even_error:
  assumes "0 < b"
  shows "\<bar>real_of_int (round_half_even a b) - real_of_int a / real_of_int b\<bar> \<le> 1 / 2"
proof -
  define q where "q = a div b"
  define r where "r = a mod b"
  have a: "a = b * q + r" by (simp add: q_def r_def)
  have r: "0 \<le> r" "r < b" using assms by (simp_all add: r_def)
  have b: "0 < real_of_int b" using assms by simp
  have frac: "real_of_int a / real_of_int b = real_of_int q + real_of_int r / real_of_int b"
    using b by (simp add: a field_simps)
  have r0: "0 \<le> real_of_int r / real_of_int b" using r b by simp
  consider "2 * r < b" | "b < 2 * r" | "2 * r = b" by linarith
  then show ?thesis
  proof cases
    case 1
    then have v: "round_half_even a b = q" by (simp add: round_half_even_def q_def r_def Let_def)
    from 1 have "2 * real_of_int r < real_of_int b" by linarith
    then have "real_of_int r / real_of_int b \<le> 1 / 2" using b by (simp add: field_simps)
    with r0 show ?thesis by (simp add: v frac)
  next
    case 2
    then have v: "round_half_even a b = q + 1" by (simp add: round_half_even_def q_def r_def Let_def)
    from 2 have "real_of_int b < 2 * real_of_int r" by linarith
    then have h: "1 / 2 \<le> real_of_int r / real_of_int b" using b by (simp add: field_simps)
    from r have "real_of_int r < real_of_int b" by linarith
    then have "real_of_int r / real_of_int b \<le> 1" using b by (simp add: field_simps)
    with h show ?thesis by (simp add: v frac)
  next
    case 3
    then have "2 * real_of_int r = real_of_int b" by linarith
    then have h: "real_of_int r / real_of_int b = 1 / 2" using b by (simp add: field_simps)
    have v: "round_half_even a b = q \<or> round_half_even a b = q + 1"
      using 3 by (simp add: round_half_even_def q_def r_def Let_def)
    have e: "real_of_int a / real_of_int b = real_of_int q + 1 / 2"
      using frac h by simp
    from v show ?thesis
    proof
      assume "round_half_even a b = q"
      then show ?thesis unfolding e by simp
    next
      assume "round_half_even a b = q + 1"
      then show ?thesis unfolding e by simp
    qed
  qed
qed


lemma quotient_double_value:
  assumes "0 < t" "0 \<le> c" "c \<le> t"
  shows "\<exists>s. 52 \<le> s \<and> round_double c t = (round_half_even (c * 2 ^ s) t, - int s)"
proof -
  define e where "e = max (floor_log2 c t - 52) (- 1074)"
  have "bit_length c \<le> bit_length t" using assms by (simp add: bit_length_mono)
  with floor_log2_le [of c t] have "floor_log2 c t \<le> 0" by simp
  then have e: "e \<le> - 52" by (simp add: e_def)
  then have neg: "\<not> 0 \<le> e" by simp
  have rd: "round_double c t = (round_half_even (c * 2 ^ nat (- e)) t, e)"
    using neg by (simp add: round_double_def e_def [symmetric] Let_def)
  have "52 \<le> nat (- e)" "e = - int (nat (- e))" using e by simp_all
  with rd show ?thesis by metis
qed

lemma product_double_value:
  assumes "0 \<le> m" "m \<le> 2 ^ s"
  shows "\<exists>s2. 46 \<le> s2
     \<and> round_double (100 * m) (2 ^ s) = (round_half_even (100 * m * 2 ^ s2) (2 ^ s), - int s2)"
proof -
  define e where "e = max (floor_log2 (100 * m) (2 ^ s) - 52) (- 1074)"
  have "100 * m \<le> 100 * 2 ^ s" using assms by simp
  also have "\<dots> < 128 * (2::int) ^ s" by simp
  also have "\<dots> = 2 ^ (s + 7)" by (simp add: power_add)
  finally have "bit_length (100 * m) \<le> s + 7" by (rule bit_length_less_power)
  with floor_log2_le [of "100 * m" "2 ^ s"] have "floor_log2 (100 * m) (2 ^ s) \<le> 6"
    by (simp add: bit_length_power)
  then have e: "e \<le> - 46" by (simp add: e_def)
  then have neg: "\<not> 0 \<le> e" by simp
  have rd: "round_double (100 * m) (2 ^ s) = (round_half_even (100 * m * 2 ^ nat (- e)) (2 ^ s), e)"
    using neg by (simp add: round_double_def e_def [symmetric] Let_def)
  have "46 \<le> nat (- e)" "e = - int (nat (- e))" using e by simp_all
  with rd show ?thesis by metis
qed

lemma int_percent_value:
  assumes "0 < t" "0 \<le> c" "c \<le> t"
  shows "\<exists>s s2 m m2. 52 \<le> s \<and> 46 \<le> s2
           \<and> m = round_half_even (c * 2 ^ s) t \<and> 0 \<le> m \<and> m \<le> 2 ^ s
           \<and> m2 = round_half_even (100 * m * 2 ^ s2) (2 ^ s) \<and> 0 \<le> m2 \<and> m2 \<le> 100 * 2 ^ s2
           \<and> int_percent c t = Inr (sgn c * (m2 div 2 ^ s2))"
proof -
  obtain s where s: "52 \<le> s" and q: "round_double c t = (round_half_even (c * 2 ^ s) t, - int s)"
    using quotient_double_value [OF assms] by blast
  define m where "m = round_half_even (c * 2 ^ s) t"
  have "c * 2 ^ s \<le> 2 ^ s * t"
    using assms by (simp add: mult.commute mult_left_mono)
  then have m_up: "m \<le> 2 ^ s"
    unfolding m_def using assms by (intro round_half_even_le) auto
  have m_lo: "0 \<le> m"
    unfolding m_def using assms by (intro round_half_even_nonneg) auto
  obtain s2 where s2: "46 \<le> s2"
    and p: "round_double (100 * m) (2 ^ s) = (round_half_even (100 * m * 2 ^ s2) (2 ^ s), - int s2)"
    using product_double_value [OF m_lo m_up] by blast
  define m2 where "m2 = round_half_even (100 * m * 2 ^ s2) (2 ^ s)"
  have m2_lo: "0 \<le> m2"
    unfolding m2_def using m_lo by (intro round_half_even_nonneg) auto
  have "100 * m * 2 ^ s2 \<le> 100 * 2 ^ s2 * 2 ^ s"
    using m_up by (simp add: mult.commute mult_left_mono)
  then have m2_up: "m2 \<le> 100 * 2 ^ s2"
    unfolding m2_def by (intro round_half_even_le) auto
  have val: "int_percent c t = Inr (sgn c * (m2 div 2 ^ s2))"
    using assms q p s s2
    by (simp add: int_percent_def overflows_def int_of_double_def Let_def m_def m2_def)
  show ?thesis
    using s s2 m_lo m_up m2_lo m2_up val m_def m2_def by blast
qed

lemma int_percent_bounds:
  assumes "0 < t" "0 \<le> c" "c \<le> t"
  shows "\<exists>p. int_percent c t = Inr p \<and> 0 \<le> p \<and> p \<le> 100"
proof -
  from int_percent_value [OF assms] obtain s2 m2 where
    m2: "0 \<le> m2" "m2 \<le> 100 * 2 ^ s2"
    and val: "int_percent c t = Inr (sgn c * (m2 div 2 ^ s2))"
    by blast
  have t0: "0 \<le> m2 div 2 ^ s2"
    using m2 by (simp add: pos_imp_zdiv_nonneg_iff)
  have "m2 div 2 ^ s2 \<le> (100 * 2 ^ s2) div 2 ^ s2"
    using m2 by (intro zdiv_mono1) auto
  then have t1: "m2 div 2 ^ s2 \<le> 100"
    by simp
  have "sgn c = 0 \<or> sgn c = 1"
    using assms by (auto simp: sgn_if)
  then show ?thesis
    using val t0 t1 by auto
qed

lemma int_percent_floor:
  assumes "0 < t" "0 \<le> c" "c \<le> t" "t \<le> 2 ^ 45"
  shows "\<exists>p. int_percent c t = Inr p \<and> (p = 100 * c div t \<or> p = 100 * c div t - 1)"
proof -
  from int_percent_value [OF assms(1-3)] obtain s s2 m m2 where
    s: "52 \<le> s" and s2: "46 \<le> s2"
    and m_def: "m = round_half_even (c * 2 ^ s) t"
    and m2_def: "m2 = round_half_even (100 * m * 2 ^ s2) (2 ^ s)"
    and m2_lo: "0 \<le> m2"
    and val: "int_percent c t = Inr (sgn c * (m2 div 2 ^ s2))"
    by blast
  define x where "x = real_of_int (100 * c) / real_of_int t"
  define y where "y = real_of_int m2 / 2 ^ s2"
  have tpos: "0 < real_of_int t" using assms by simp
  have e1: "\<bar>real_of_int m - real_of_int (c * 2 ^ s) / real_of_int t\<bar> \<le> 1 / 2"
    unfolding m_def using assms by (intro round_half_even_error) auto
  have e2: "\<bar>real_of_int m2 - real_of_int (100 * m * 2 ^ s2) / real_of_int (2 ^ s)\<bar> \<le> 1 / 2"
    unfolding m2_def by (intro round_half_even_error) auto
  have p52: "(2::real) ^ 52 \<le> 2 ^ s" using s by (intro power_increasing) auto
  have p46: "(2::real) ^ 46 \<le> 2 ^ s2" using s2 by (intro power_increasing) auto
  define A where "A = real_of_int m - real_of_int (c * 2 ^ s) / real_of_int t"
  define B where "B = real_of_int m2 - real_of_int (100 * m * 2 ^ s2) / real_of_int (2 ^ s)"
  have A: "\<bar>A\<bar> \<le> 1 / 2" using e1 by (simp add: A_def)
  have B: "\<bar>B\<bar> \<le> 1 / 2" using e2 by (simp add: B_def)
  have d1: "\<bar>100 * real_of_int m / 2 ^ s - x\<bar> \<le> 100 / 2 ^ 53"
  proof -
    have "100 * real_of_int m / 2 ^ s - x = (100 / 2 ^ s) * A"
      using tpos by (simp add: x_def A_def field_simps)
    then have "\<bar>100 * real_of_int m / 2 ^ s - x\<bar> = (100 / 2 ^ s) * \<bar>A\<bar>"
      by (simp only: abs_mult) simp
    also have "\<dots> \<le> (100 / 2 ^ s) * (1 / 2)"
      using A by (intro mult_left_mono) auto
    also have "\<dots> \<le> (100 / 2 ^ 52) * (1 / 2)"
      using p52 by (intro mult_right_mono divide_left_mono) auto
    finally show ?thesis by simp
  qed
  have d2: "\<bar>y - 100 * real_of_int m / 2 ^ s\<bar> \<le> 1 / 2 ^ 47"
  proof -
    have "y - 100 * real_of_int m / 2 ^ s = (1 / 2 ^ s2) * B"
      by (simp add: y_def B_def field_simps)
    then have "\<bar>y - 100 * real_of_int m / 2 ^ s\<bar> = (1 / 2 ^ s2) * \<bar>B\<bar>"
      by (simp only: abs_mult) simp
    also have "\<dots> \<le> (1 / 2 ^ s2) * (1 / 2)"
      using B by (intro mult_left_mono) auto
    also have "\<dots> \<le> (1 / 2 ^ 46) * (1 / 2)"
      using p46 by (intro mult_right_mono divide_left_mono) auto
    finally show ?thesis by simp
  qed
  define eps where "eps = (1::real) / 2 ^ 45"
  have eps: "0 < eps" "eps < 1" by (simp_all add: eps_def)
  have close: "\<bar>y - x\<bar> < eps"
  proof -
    have "\<bar>y - x\<bar> \<le> \<bar>y - 100 * real_of_int m / 2 ^ s\<bar> + \<bar>100 * real_of_int m / 2 ^ s - x\<bar>"
      by linarith
    also have "\<dots> \<le> 1 / 2 ^ 47 + 100 / 2 ^ 53" using d1 d2 by linarith
    also have "\<dots> < eps" by (simp add: eps_def)
    finally show ?thesis .
  qed
  define K where "K = 100 * c div t"
  define r where "r = 100 * c mod t"
  have dec: "100 * c = t * K + r" by (simp add: K_def r_def)
  have r: "0 \<le> r" "r \<le> t - 1" using assms by (simp_all add: r_def)
  have "real_of_int (100 * c) = real_of_int t * real_of_int K + real_of_int r"
    using dec by (metis of_int_add of_int_mult)
  then have xK: "x = real_of_int K + real_of_int r / real_of_int t"
    using tpos unfolding x_def by (simp add: field_simps)
  have "real_of_int t \<le> 2 ^ 45" using assms(4) by (metis of_int_le_iff of_int_numeral of_int_power)
  then have inv: "eps \<le> 1 / real_of_int t"
    using tpos unfolding eps_def by (intro divide_left_mono) auto
  have "real_of_int r \<le> real_of_int t - 1" using r by linarith
  then have "real_of_int r / real_of_int t \<le> 1 - 1 / real_of_int t"
    using tpos by (simp add: field_simps)
  with xK inv have x_up: "x \<le> real_of_int K + 1 - eps" by linarith
  have "0 \<le> real_of_int r / real_of_int t" using r tpos by simp
  with xK have x_lo: "real_of_int K \<le> x" by linarith
  have y_up: "y < real_of_int K + 1" using close x_up by linarith
  have y_lo: "real_of_int K - 1 < y" using close x_lo eps by linarith
  have "\<lfloor>real_of_int m2 / real_of_int (2 ^ s2)\<rfloor> = m2 div 2 ^ s2"
    by (rule floor_divide_of_int_eq)
  then have fl: "m2 div 2 ^ s2 = \<lfloor>y\<rfloor>"
    by (simp add: y_def)
  have "\<lfloor>y\<rfloor> \<le> K" using y_up by (simp add: floor_le_iff)
  moreover have "K - 1 \<le> \<lfloor>y\<rfloor>" using y_lo by (simp add: le_floor_iff)
  ultimately have pk: "m2 div 2 ^ s2 = K \<or> m2 div 2 ^ s2 = K - 1" using fl by linarith
  show ?thesis
  proof (cases "c = 0")
    case True
    have "m2 div 2 ^ s2 \<ge> 0" using m2_lo by (simp add: pos_imp_zdiv_nonneg_iff)
    with True pk val show ?thesis by (auto simp: K_def)
  next
    case False
    with assms have "sgn c = 1" by simp
    with val pk show ?thesis by (auto simp: K_def)
  qed
qed


lemma round_half_even_ge:
  assumes "0 < b" "N * b \<le> a"
  shows "N \<le> round_half_even a b"
proof -
  have "N * b div b \<le> a div b"
    using assms by (intro zdiv_mono1) auto
  then have "N \<le> a div b"
    using assms by simp
  then show ?thesis
    by (simp add: round_half_even_def Let_def)
qed

lemma bit_length_pos: "0 < t \<Longrightarrow> 1 \<le> bit_length t"
  by (simp add: bit_length.simps [of t])

lemma quotient_double_large:
  assumes "0 < t" "t \<le> c" "c < 2 ^ 31"
  shows "\<exists>s. 22 \<le> s \<and> round_double c t = (round_half_even (c * 2 ^ s) t, - int s)"
proof -
  define e where "e = max (floor_log2 c t - 52) (- 1074)"
  have "bit_length c \<le> 31"
    using assms(3) by (rule bit_length_less_power)
  moreover have "1 \<le> bit_length t"
    using assms(1) by (rule bit_length_pos)
  ultimately have "floor_log2 c t \<le> 30"
    using floor_log2_le [of c t] by simp
  then have e: "e \<le> - 22"
    by (simp add: e_def)
  then have neg: "\<not> 0 \<le> e"
    by simp
  have rd: "round_double c t = (round_half_even (c * 2 ^ nat (- e)) t, e)"
    using neg by (simp add: round_double_def e_def [symmetric] Let_def)
  have "22 \<le> nat (- e)" "e = - int (nat (- e))"
    using e by simp_all
  with rd show ?thesis
    by metis
qed

lemma product_double_large:
  assumes "0 \<le> m" "m \<le> 2 ^ 31 * 2 ^ s"
  shows "\<exists>s2. 15 \<le> s2 \<and> round_double (100 * m) (2 ^ s)
                = (round_half_even (100 * m * 2 ^ s2) (2 ^ s), - int s2)"
proof -
  define e where "e = max (floor_log2 (100 * m) (2 ^ s) - 52) (- 1074)"
  have "100 * m \<le> 100 * (2 ^ 31 * 2 ^ s)"
    using assms by simp
  also have "\<dots> < 128 * (2 ^ 31 * (2::int) ^ s)"
    by simp
  also have "\<dots> = 2 ^ (s + 38)"
    by (simp add: power_add)
  finally have "bit_length (100 * m) \<le> s + 38"
    by (rule bit_length_less_power)
  with floor_log2_le [of "100 * m" "2 ^ s"] have "floor_log2 (100 * m) (2 ^ s) \<le> 37"
    by (simp add: bit_length_power)
  then have e: "e \<le> - 15"
    by (simp add: e_def)
  then have neg: "\<not> 0 \<le> e"
    by simp
  have rd: "round_double (100 * m) (2 ^ s)
      = (round_half_even (100 * m * 2 ^ nat (- e)) (2 ^ s), e)"
    using neg by (simp add: round_double_def e_def [symmetric] Let_def)
  have "15 \<le> nat (- e)" "e = - int (nat (- e))"
    using e by simp_all
  with rd show ?thesis
    by metis
qed

lemma int_percent_at_least:
  assumes "0 < t" "t \<le> c" "c < 2 ^ 31"
  shows "\<exists>p. int_percent c t = Inr p \<and> 100 \<le> p"
proof -
  obtain s where s: "22 \<le> s"
    and q: "round_double c t = (round_half_even (c * 2 ^ s) t, - int s)"
    using quotient_double_large [OF assms] by blast
  define m where "m = round_half_even (c * 2 ^ s) t"
  have "2 ^ s * t \<le> c * 2 ^ s"
    using assms by (simp add: mult.commute mult_left_mono)
  then have m_lo: "2 ^ s \<le> m"
    unfolding m_def using assms by (intro round_half_even_ge) auto
  have "c * 2 ^ s \<le> 2 ^ 31 * 2 ^ s * 1"
    using assms by simp
  also have "\<dots> \<le> 2 ^ 31 * 2 ^ s * t"
    using assms by (intro mult_left_mono) auto
  finally have m_up: "m \<le> 2 ^ 31 * 2 ^ s"
    unfolding m_def using assms by (intro round_half_even_le) auto
  have m0: "0 \<le> m"
    using m_lo by (smt (verit) zero_le_power)
  obtain s2 where s2: "15 \<le> s2"
    and p: "round_double (100 * m) (2 ^ s)
      = (round_half_even (100 * m * 2 ^ s2) (2 ^ s), - int s2)"
    using product_double_large [OF m0 m_up] by blast
  define m2 where "m2 = round_half_even (100 * m * 2 ^ s2) (2 ^ s)"
  have "100 * 2 ^ s2 * 2 ^ s \<le> 100 * m * 2 ^ s2"
    using m_lo by (simp add: mult.commute mult_left_mono)
  then have m2_lo: "100 * 2 ^ s2 \<le> m2"
    unfolding m2_def by (intro round_half_even_ge) auto
  have "(100 * 2 ^ s2) div 2 ^ s2 \<le> m2 div 2 ^ s2"
    using m2_lo by (intro zdiv_mono1) auto
  then have t1: "100 \<le> m2 div 2 ^ s2"
    by simp
  have val: "int_percent c t = Inr (sgn c * (m2 div 2 ^ s2))"
    using assms q p s s2
    by (simp add: int_percent_def overflows_def int_of_double_def Let_def m_def m2_def)
  have "sgn c = 1"
    using assms by simp
  with val t1 show ?thesis
    by simp
qed

lemma digit_value_nonneg: "0 \<le> digit_value c"
  by (simp add: digit_value_def split: option.splits if_splits)

lemma foldl_digits_nonneg: "0 \<le> acc \<Longrightarrow> 0 \<le> foldl (\<lambda>acc c. 10 * acc + digit_value c) acc ds"
  by (induction ds arbitrary: acc) (simp_all add: digit_value_nonneg)

lemma int_of_digits_nonneg: "0 \<le> int_of_digits ds"
  by (simp add: int_of_digits_def foldl_digits_nonneg)

lemma search_found_nonneg: "search_found line = Some n \<Longrightarrow> 0 \<le> n"
  by (induction line) (auto simp: int_of_digits_nonneg split: if_splits)

lemma handle_line_counts:
  assumes "0 \<le> current_track st" "0 \<le> total_tracks st" "handle_line line st = (acts, st')"
  shows "0 \<le> current_track st' \<and> 0 \<le> total_tracks st'
         \<and> (\<forall>c t. Progress c t \<in> set acts \<longrightarrow> 1 \<le> c \<and> 0 \<le> t)"
  using assms
  by (auto simp: handle_line_def console_part_def Let_def
      split: if_splits option.splits dest: search_found_nonneg)

lemma read_lines_counts:
  assumes "0 \<le> current_track st" "0 \<le> total_tracks st"
  shows "\<forall>c t. Progress c t \<in> set (fst (read_lines ls st)) \<longrightarrow> 1 \<le> c \<and> 0 \<le> t"
  using assms
proof (induction ls arbitrary: st)
  case Nil
  show ?case by simp
next
  case (Cons line rest)
  obtain a st' where h: "handle_line line st = (a, st')" by (cases "handle_line line st")
  obtain b st'' where r: "read_lines rest st' = (b, st'')" by (cases "read_lines rest st'")
  from handle_line_counts [OF Cons.prems h]
  have inv: "0 \<le> current_track st'" "0 \<le> total_tracks st'"
    and a: "\<forall>c t. Progress c t \<in> set a \<longrightarrow> 1 \<le> c \<and> 0 \<le> t" by simp_all
  from Cons.IH [OF inv] r have b: "\<forall>c t. Progress c t \<in> set b \<longrightarrow> 1 \<le> c \<and> 0 \<le> t" by simp
  show ?case using h r a b by auto
qed


lemma progress_shown_in_range:
  assumes "keeps_c_ints conv" and "0 \<le> current" "current < 2 ^ 31" "0 \<le> tot" "tot < 2 ^ 31"
  shows "progress_shown conv current tot = int_percent current tot"
proof -
  have "conv current = Inr current" "conv tot = Inr tot"
    using assms by (simp_all add: keeps_c_ints_def)
  then show ?thesis
    by (simp add: progress_shown_def update_progress_def)
qed

text \<open>
  Claim C3, as the code has it. Every progress event \<open>(current, total)\<close> of the job has
  \<open>current \<ge> 1\<close> and \<open>total \<ge> 0\<close>, and both reach the slot as 32 bit integers, unchanged when
  they are below \<open>2 ^ 31\<close>. For \<open>1 \<le> total < 2 ^ 31\<close> and \<open>0 \<le> current \<le> total\<close> the slot hands
  to the progress bar a value between 0 and 100, the double precision value of
  \<open>int((current / total) * 100)\<close>: it is the exact \<open>floor(100 * current / total)\<close> or, by
  rounding, one less. Nothing bounds \<open>current\<close> by \<open>total\<close>: for
  \<open>1 \<le> total \<le> current < 2 ^ 31\<close> the value is at least 100. Nothing guards the division:
  with \<open>total = 0\<close> the slot raises \<open>ZeroDivisionError\<close>.
\<close>

theorem update_progress_range:
  assumes "keeps_c_ints conv"
  shows "(0 < tot \<and> tot < 2 ^ 31 \<and> 0 \<le> current \<and> current \<le> tot \<longrightarrow>
            (\<exists>p. progress_shown conv current tot = Inr p \<and> 0 \<le> p \<and> p \<le> 100
                 \<and> (p = 100 * current div tot \<or> p = 100 * current div tot - 1)))
         \<and> (0 < tot \<and> tot \<le> current \<and> current < 2 ^ 31 \<longrightarrow>
            (\<exists>p. progress_shown conv current tot = Inr p \<and> 100 \<le> p))
         \<and> (0 \<le> current \<and> current < 2 ^ 31 \<longrightarrow>
            progress_shown conv current 0 = Inl ZeroDivisionError)
         \<and> (Progress c t \<in> set (fst (read_lines ls loop_init)) \<longrightarrow> 1 \<le> c \<and> 0 \<le> t)"
proof -
  have events: "Progress c t \<in> set (fst (read_lines ls loop_init)) \<longrightarrow> 1 \<le> c \<and> 0 \<le> t"
    using read_lines_counts [of loop_init ls] by (simp add: loop_init_def)
  have zero: "0 \<le> current \<and> current < 2 ^ 31 \<longrightarrow>
      progress_shown conv current 0 = Inl ZeroDivisionError"
    using progress_shown_in_range [OF assms, of current 0] by (simp add: int_percent_def)
  have above: "0 < tot \<and> tot \<le> current \<and> current < 2 ^ 31 \<longrightarrow>
      (\<exists>p. progress_shown conv current tot = Inr p \<and> 100 \<le> p)"
  proof
    assume h: "0 < tot \<and> tot \<le> current \<and> current < 2 ^ 31"
    then have "progress_shown conv current tot = int_percent current tot"
      by (intro progress_shown_in_range [OF assms]) auto
    with int_percent_at_least [of tot current] h
    show "\<exists>p. progress_shown conv current tot = Inr p \<and> 100 \<le> p"
      by simp
  qed
  have within: "0 < tot \<and> tot < 2 ^ 31 \<and> 0 \<le> current \<and> current \<le> tot \<longrightarrow>
      (\<exists>p. progress_shown conv current tot = Inr p \<and> 0 \<le> p \<and> p \<le> 100
           \<and> (p = 100 * current div tot \<or> p = 100 * current div tot - 1))"
  proof
    assume h: "0 < tot \<and> tot < 2 ^ 31 \<and> 0 \<le> current \<and> current \<le> tot"
    then have eq: "progress_shown conv current tot = int_percent current tot"
      by (intro progress_shown_in_range [OF assms]) auto
    from h have "tot \<le> 2 ^ 45"
      by simp
    with int_percent_floor [of tot current] h obtain p where
      p: "int_percent current tot = Inr p"
        "p = 100 * current div tot \<or> p = 100 * current div tot - 1"
      by blast
    from int_percent_bounds [of tot current] h p(1) have "0 \<le> p \<and> p \<le> 100"
      by auto
    with eq p
    show "\<exists>p. progress_shown conv current tot = Inr p \<and> 0 \<le> p \<and> p \<le> 100
           \<and> (p = 100 * current div tot \<or> p = 100 * current div tot - 1)"
      by simp
  qed
  show ?thesis
    using within above zero events by blast
qed

theorem update_progress_range_witness:
  "keeps_c_ints wrap_conv
   \<and> (\<exists>p. progress_shown wrap_conv 29 100 = Inr p \<and> 0 \<le> p \<and> p \<le> 100 \<and> (p = 29 \<or> p = 28))
   \<and> progress_shown wrap_conv 29 100 = Inr 28
   \<and> (\<exists>p. progress_shown wrap_conv 2 1 = Inr p \<and> 100 \<le> p)
   \<and> progress_shown wrap_conv 2 0 = Inl ZeroDivisionError
   \<and> Progress 3 3 \<in> set (fst (read_lines three_track_lines loop_init))"
proof -
  have k: "keeps_c_ints wrap_conv"
    by (simp add: keeps_c_ints_def wrap_conv_def)
  have e: "Progress 3 3 \<in> set (fst (read_lines three_track_lines loop_init))"
    by (simp add: three_track_lines_def line_eval)
  have v: "progress_shown wrap_conv 29 100 = Inr 28"
    by code_simp
  show ?thesis
    using update_progress_range [OF k, of 100 29 3 3 three_track_lines]
      update_progress_range [OF k, of 1 2 3 3 three_track_lines] k e v
    by simp
qed

text \<open>
  With a conversion that wraps around, a total of \<open>2 ^ 32\<close> arrives as 0 and the slot raises
  as it does for 0.
\<close>

lemma wrapped_total:
  "progress_shown wrap_conv 1 4294967296 = Inl ZeroDivisionError"
  by (simp add: progress_shown_def wrap_conv_def update_progress_def int_percent_def)

text \<open>
  Against claim C3 as stated. The downloader announces \<open>Found 0 tracks\<close> and then downloads:
  the job emits the progress event \<open>(1, 0)\<close>, on which the slot raises \<open>ZeroDivisionError\<close>;
  no total below 1 is replaced by 1. And two \<open>Downloading\<close> lines before the \<open>Found\<close> line give
  the event \<open>(2, 1)\<close>, for which the slot computes 200.
\<close>

theorem update_progress_counterexample:
  "Progress 1 0 \<in> set (fst (read_lines zero_total_lines loop_init))
   \<and> update_progress 1 0 = Inl ZeroDivisionError
   \<and> Progress 2 1 \<in> set (fst (read_lines early_lines loop_init))
   \<and> update_progress 2 1 = Inr 200"
proof -
  have "fst (read_lines zero_total_lines loop_init)
          = [Console ''Found 0 tracks'', Console ''Downloading One'', Progress 1 0]"
    by (simp add: zero_total_lines_def line_eval)
  moreover have "fst (read_lines early_lines loop_init)
          = [Console ''Downloading One'', Progress 1 1, Console ''Downloading Two'',
             Progress 2 1, Console ''Found 2 tracks'']"
    by (simp add: early_lines_def line_eval)
  moreover have "update_progress 1 0 = Inl ZeroDivisionError"
    by (simp add: update_progress_def int_percent_def)
  moreover have "update_progress 2 1 = Inr 200"
    by code_simp
  ultimately show ?thesis
    by simp
qed


section \<open>The download job\<close>

text \<open>
  Claim C9. With the empty URL the job emits the failure outcome \<open>No URL provided\<close> with
  empty content and time stamp and does nothing else: no change of directory, no lookup
  of an executable, no process.
\<close>

theorem empty_url:
  "url req = [] \<Longrightarrow>
   DownloadWorker_run env req original_dir =
     \<lparr>actions = [Complete False ''No URL provided'' [] []], cwd = original_dir, escaped = None\<rparr>"
  by (simp add: DownloadWorker_run_def)

theorem empty_url_witness:
  "url empty_request = []
   \<and> DownloadWorker_run env_no_directory empty_request ''C:/App'' =
       \<lparr>actions = [Complete False ''No URL provided'' [] []], cwd = ''C:/App'', escaped = None\<rparr>"
proof -
  have h: "url empty_request = []"
    by (simp add: empty_request_def)
  show ?thesis
    using empty_url [OF h, of env_no_directory "''C:/App''"] h by simp
qed


lemma console_part_no_complete: "filter is_complete (console_part line) = []"
  by (simp add: console_part_def is_complete_def)

lemma handle_line_no_complete: "filter is_complete (fst (handle_line line st)) = []"
  by (simp add: handle_line_def Let_def console_part_no_complete is_complete_def)

lemma read_lines_no_complete: "filter is_complete (fst (read_lines ls st)) = []"
proof (induction ls arbitrary: st)
  case Nil
  show ?case by simp
next
  case (Cons line rest)
  obtain a st' where h: "handle_line line st = (a, st')"
    by (cases "handle_line line st")
  obtain b st'' where r: "read_lines rest st' = (b, st'')"
    by (cases "read_lines rest st'")
  from handle_line_no_complete [of line st] h have "filter is_complete a = []"
    by simp
  moreover from Cons.IH [of st'] r have "filter is_complete b = []"
    by simp
  ultimately show ?case
    using h r by simp
qed

lemma after_spawn_one_complete: "length (filter is_complete (after_spawn env req proc)) = 1"
proof -
  obtain a st where r: "read_lines (stdout_lines proc) loop_init = (a, st)"
    by (cases "read_lines (stdout_lines proc) loop_init")
  from read_lines_no_complete [of "stdout_lines proc" loop_init] r
  have "filter is_complete a = []"
    by simp
  then show ?thesis
    using r by (simp add: after_spawn_def is_complete_def split: option.splits)
qed

lemma try_block_one_complete: "length (filter is_complete (try_block env req command)) = 1"
  by (simp add: try_block_def is_complete_def after_spawn_one_complete split: sum.splits)

lemma which_or_no_complete: "filter is_complete (fst (which_or env a b)) = []"
  by (simp add: which_or_def is_complete_def split: sum.splits)

lemma restore_actions:
  "filter is_complete (actions (restore env d cur acts)) = filter is_complete acts"
  by (simp add: restore_def is_complete_def split: option.splits)

lemma restore_cwd: "escaped (restore env d cur acts) = None \<Longrightarrow> cwd (restore env d cur acts) = d"
  by (simp add: restore_def split: option.splits)

lemma resolve_and_download_shape:
  assumes "app_base_dir env = Inr folder"
    and "which_or env ''ffmpeg'' ''ffmpeg.exe'' = (w1, Inr f)"
    and "which_or env ''spotdl'' ''spotdl.exe'' = (w2, Inr g)"
  shows "\<exists>A. resolve_and_download env req d pre
               = restore env d (download_path req) (pre @ App_base_dir # w1 @ w2 @ A)
             \<and> length (filter is_complete A) = 1"
proof -
  let ?ff = "first_file env (possible_paths env folder ''ffmpeg.exe'' f)"
  let ?sp = "first_file env (possible_paths env folder ''spotdl.exe'' g)"
  consider "\<not> truthy ?ff" | "truthy ?ff" "\<not> truthy ?sp" | "truthy ?ff" "truthy ?sp"
    by blast
  then show ?thesis
  proof cases
    case 1
    with assms have "resolve_and_download env req d pre
        = restore env d (download_path req)
            (pre @ App_base_dir # w1 @ w2 @ [Complete False ffmpeg_missing (url req) []])"
      by (simp add: resolve_and_download_def Let_def)
    then show ?thesis
      by (auto simp: is_complete_def)
  next
    case 2
    with assms have "resolve_and_download env req d pre
        = restore env d (download_path req)
            (pre @ App_base_dir # w1 @ w2 @ [Complete False spotdl_missing (url req) []])"
      by (simp add: resolve_and_download_def Let_def)
    then show ?thesis
      by (auto simp: is_complete_def)
  next
    case 3
    with assms have "resolve_and_download env req d pre
        = restore env d (download_path req)
            (pre @ App_base_dir # w1 @ w2
               @ try_block env req (command_line req (the ?sp) (the ?ff)))"
      by (simp add: resolve_and_download_def Let_def)
    then show ?thesis
      using try_block_one_complete by blast
  qed
qed

lemma resolve_and_download_returns:
  assumes "escaped (resolve_and_download env req d pre) = None"
    and "filter is_complete pre = []"
  shows "length (filter is_complete (actions (resolve_and_download env req d pre))) = 1
         \<and> cwd (resolve_and_download env req d pre) = d"
proof -
  from assms(1) obtain folder where b: "app_base_dir env = Inr folder"
    by (cases "app_base_dir env") (simp_all add: resolve_and_download_def)
  obtain w1 r1 where w1: "which_or env ''ffmpeg'' ''ffmpeg.exe'' = (w1, r1)"
    by (cases "which_or env ''ffmpeg'' ''ffmpeg.exe''")
  from assms(1) b w1 obtain f where r1: "r1 = Inr f"
    by (cases r1) (simp_all add: resolve_and_download_def)
  obtain w2 r2 where w2: "which_or env ''spotdl'' ''spotdl.exe'' = (w2, r2)"
    by (cases "which_or env ''spotdl'' ''spotdl.exe''")
  from assms(1) b w1 r1 w2 obtain g where r2: "r2 = Inr g"
    by (cases r2) (simp_all add: resolve_and_download_def)
  have n1: "filter is_complete w1 = []"
    using which_or_no_complete [of env "''ffmpeg''" "''ffmpeg.exe''"] w1 by simp
  have n2: "filter is_complete w2 = []"
    using which_or_no_complete [of env "''spotdl''" "''spotdl.exe''"] w2 by simp
  have n0: "\<not> is_complete App_base_dir"
    by (simp add: is_complete_def)
  from resolve_and_download_shape [OF b w1 [unfolded r1] w2 [unfolded r2], of req d pre]
  obtain A where A: "resolve_and_download env req d pre
        = restore env d (download_path req) (pre @ App_base_dir # w1 @ w2 @ A)"
      "length (filter is_complete A) = 1"
    by blast
  show ?thesis
    using assms A n0 n1 n2 by (simp add: restore_actions restore_cwd)
qed

text \<open>
  What the job does keep: a run that no exception leaves has emitted exactly one terminal
  outcome and has restored the working directory.
\<close>

lemma run_returns:
  assumes "escaped (DownloadWorker_run env req d) = None"
  shows "length (filter is_complete (actions (DownloadWorker_run env req d))) = 1
         \<and> cwd (DownloadWorker_run env req d) = d"
proof (cases "url req = []")
  case True
  then show ?thesis
    by (simp add: DownloadWorker_run_def is_complete_def)
next
  case False
  with assms have c: "chdir_error env (download_path req) = None"
    by (cases "chdir_error env (download_path req)") (simp_all add: DownloadWorker_run_def)
  with False have eq: "DownloadWorker_run env req d
      = resolve_and_download env req d [Chdir (download_path req)]"
    by (simp add: DownloadWorker_run_def)
  have "filter is_complete [Chdir (download_path req)] = []"
    by (simp add: is_complete_def)
  with assms eq resolve_and_download_returns [of env req d "[Chdir (download_path req)]"]
  show ?thesis
    by simp
qed

lemma starts_with_append: "starts_with p (p @ s)"
  by (induction p) auto

lemma contains_starts_with: "starts_with sub s \<Longrightarrow> contains sub s"
  by (cases s) (auto elim: starts_with.elims)

lemma contains_append: "contains sub s \<Longrightarrow> contains sub (a @ s)"
  by (induction a) auto

lemma contains_middle: "contains sub (a @ sub @ b)"
  by (simp add: contains_append contains_starts_with starts_with_append)

text \<open>
  Inside the \<open>try\<close> statement the outcome follows the process: an exception of the spawn
  or of the reading gives a failure with the text of the exception, exit code 0 a success,
  any other exit code a failure whose message contains the code.
\<close>

lemma try_block_outcome:
  "(popen env command = Inl e \<longrightarrow>
      try_block env req command
        = [Popen command, Complete False (exn_text e) (url req) (now env)])
   \<and> (popen env command = Inr proc \<and> read_error proc = Some e \<longrightarrow>
      last (try_block env req command) = Complete False (exn_text e) (url req) (now env))
   \<and> (popen env command = Inr proc \<and> read_error proc = None \<and> return_code proc = 0 \<longrightarrow>
      (\<exists>content. last (try_block env req command)
         = Complete True ''Download completed successfully!'' content (now env)))
   \<and> (popen env command = Inr proc \<and> read_error proc = None \<and> return_code proc \<noteq> 0 \<longrightarrow>
      (\<exists>msg. last (try_block env req command) = Complete False msg (url req) (now env)
         \<and> contains (show_int (return_code proc)) msg))"
proof -
  obtain a st where r: "read_lines (stdout_lines proc) loop_init = (a, st)"
    by (cases "read_lines (stdout_lines proc) loop_init")
  have "contains (show_int (return_code proc))
          (''Download failed with return code '' @ show_int (return_code proc) @ ''.'')"
    by (rule contains_middle)
  then show ?thesis
    using r by (auto simp: try_block_def after_spawn_def)
qed

text \<open>
  Claim C1, where the code departs from it. The request is well formed and the download
  directory can be entered. The call of \<open>app_base_dir\<close>, a name the file does not define,
  raises \<open>NameError\<close> before the \<open>try\<close> statement: the exception leaves \<open>run\<close> and no
  terminal outcome has been emitted. The same happens when the download directory cannot
  be entered: \<open>os.chdir\<close> raises outside every handler.
\<close>

theorem run_without_outcome:
  "DownloadWorker_run env_as_written sample_request ''C:/App''
     = \<lparr>actions = [Chdir ''C:/Music'', App_base_dir], cwd = ''C:/Music'',
        escaped = Some (NameError ''app_base_dir'')\<rparr>
   \<and> filter is_complete (actions (DownloadWorker_run env_as_written sample_request ''C:/App'')) = []
   \<and> DownloadWorker_run env_no_directory sample_request ''C:/App''
     = \<lparr>actions = [Chdir ''C:/Music''], cwd = ''C:/App'',
        escaped = Some (Error ''The system cannot find the file specified'')\<rparr>"
  by (simp add: DownloadWorker_run_def resolve_and_download_def env_as_written_def
      env_installed_def env_no_directory_def sample_request_def is_complete_def)

text \<open>
  Claim C2, where the code departs from it. The job has entered the download directory
  when an exception is raised before the \<open>try\<close> statement, by the undefined
  \<open>app_base_dir\<close> or, with that helper supplied, by \<open>shutil.which\<close> of the module that is
  not imported. No \<open>finally\<close> clause covers these lines: the process stays in the download
  directory after the job.
\<close>

theorem cwd_not_restored:
  "cwd (DownloadWorker_run env_as_written sample_request ''C:/App'') = ''C:/Music''
   \<and> DownloadWorker_run env_base_dir_given sample_request ''C:/App''
     = \<lparr>actions = [Chdir ''C:/Music'', App_base_dir, Which ''ffmpeg''], cwd = ''C:/Music'',
        escaped = Some (NameError ''shutil'')\<rparr>"
  by (simp add: DownloadWorker_run_def resolve_and_download_def env_as_written_def
      env_base_dir_given_def sample_request_def which_or_def)


section \<open>The update job\<close>

text \<open>
  Claim C10. When no downloader binary lies in the base directory of the application, the
  update job emits its completion signal and nothing else: no version query, no request
  to the network, no write to the disk, which it leaves as it was.
\<close>

theorem missing_binary:
  "base_dir env = Inr spotdl_dir \<Longrightarrow> fs (join env spotdl_dir ''spotdl.exe'') = None \<Longrightarrow>
   UpdateWorker_run env fs = \<lparr>upd_actions = [Finished], files_after = fs\<rparr>"
  by (simp add: UpdateWorker_run_def update_body_def)

theorem missing_binary_witness:
  "base_dir upd_env_sample = Inr ''C:/App''
   \<and> disk_without_binary ''C:/App/spotdl.exe'' = None
   \<and> UpdateWorker_run upd_env_sample disk_without_binary
       = \<lparr>upd_actions = [Finished], files_after = disk_without_binary\<rparr>"
proof -
  have h: "base_dir upd_env_sample = Inr ''C:/App''"
    by (simp add: upd_env_sample_def)
  have g: "disk_without_binary (join upd_env_sample ''C:/App'' ''spotdl.exe'') = None"
    by (simp add: upd_env_sample_def disk_without_binary_def)
  have g': "disk_without_binary ''C:/App/spotdl.exe'' = None"
    by (simp add: disk_without_binary_def)
  show ?thesis
    using missing_binary [of upd_env_sample "''C:/App''" disk_without_binary] h g g' by simp
qed













text \<open>
  One failure of the replacement does reach the binary, in a run that the file as it stands
  cannot make, the base directory being resolved: \<open>os.replace\<close> is refused, the fallback
  removes the installed binary, and \<open>os.rename\<close> is refused as well. The job ends silently
  and the binary is gone.
\<close>

lemma fallback_loses_binary:
  "disk_sample ''C:/App/spotdl.exe'' = Some ''old binary''
   \<and> files_after (UpdateWorker_run upd_env_sample disk_sample) ''C:/App/spotdl.exe'' = None
   \<and> upd_actions (UpdateWorker_run upd_env_sample disk_sample) =
       [Check_output [''C:/App/spotdl.exe'', ''--version''], Url_open releases_url,
        Status ''Downloading spotDL update...'', Start_progress,
        Url_open ''https://example.org/spotdl-4.2.1-win32.exe'',
        Open_write ''C:/App/spotdl.exe.new'',
        Write ''C:/App/spotdl.exe.new'' ''MZ'', Percent 50,
        Write ''C:/App/spotdl.exe.new'' ''PE'', Percent 100,
        Replace ''C:/App/spotdl.exe.new'' ''C:/App/spotdl.exe'',
        Remove ''C:/App/spotdl.exe'',
        Rename ''C:/App/spotdl.exe.new'' ''C:/App/spotdl.exe'', Finished]"
  by code_simp

end
